theory Spec2Isabelle
  imports Main
begin

section \<open>The chat page: assembling a streamed reply\<close>

text \<open>
  The development follows \<^verbatim>\<open>sendMessage\<close> of \<^verbatim>\<open>src/app/page.tsx\<close> (lines 95 to 188).
  The function relays the pending input to the chat endpoint, reads the response body
  chunk by chunk, cuts each chunk at newlines, decodes every non-blank piece with
  \<^verbatim>\<open>JSON.parse\<close> and folds the decoded fragments into the list of messages.

  What belongs to the JavaScript runtime and not to the page is modelled as follows.
  \<^item> A string is a \<^typ>\<open>string\<close>; one \<^typ>\<open>char\<close> stands for one code unit.
  \<^item> \<^verbatim>\<open>JSON.parse\<close> is a parameter \<open>JSON_parse\<close> of every function that calls it; the
    general theorems hold for every such function.
  \<^item> The answer of the transport (\<^verbatim>\<open>fetch\<close> and the reader of the body) is an input of the
    model. A body is given by the answers of its reader, one for each read; the chunks are
    the text the streaming \<^verbatim>\<open>TextDecoder\<close> makes of them. A reader need not ever report
    the end of the stream, and the read loop then runs for ever: an invocation that does not
    return has the result \<open>None\<close>.
  \<^item> React applies the state updates of one invocation in the order they are issued, so the
    component state is passed explicitly, and an updater given to \<^verbatim>\<open>setMessages\<close> is
    applied where it is issued, to the messages of that moment and with the running text of
    that moment. (React may run an updater later in the same turn; it then reads the
    running text of that later moment, which changes no sender and not the text of the
    last reply.) Events of the user that arrive while an invocation is suspended are not
    part of the model; the statements about single updates hold for whatever messages the
    update finds. \<^verbatim>\<open>console.error\<close> is not modelled.
\<close>

subsection \<open>Strings\<close>

text \<open>The white space and line terminators that \<^verbatim>\<open>String.prototype.trim\<close> removes, among the
  code units below \<open>0x100\<close>: TAB, LF, VT, FF, CR, SP and NBSP.\<close>

definition isWhiteSpace :: "char \<Rightarrow> bool" where
  "isWhiteSpace c \<longleftrightarrow> c \<in> set [CHR 0x09, CHR 0x0A, CHR 0x0B, CHR 0x0C, CHR 0x0D, CHR 0x20, CHR 0xA0]"

definition trim :: "string \<Rightarrow> string" where
  "trim s = rev (dropWhile isWhiteSpace (rev (dropWhile isWhiteSpace s)))"

text \<open>\<^verbatim>\<open>s.split('\n')\<close>: the pieces between newlines; the empty string gives one empty piece.
  The second branch of the \<open>case\<close> is never taken, the result being non-empty.\<close>

fun split_nl :: "string \<Rightarrow> string list" where
  "split_nl [] = [[]]"
| "split_nl (c # cs) =
     (if c = CHR ''\<newline>'' then [] # split_nl cs
      else (case split_nl cs of l # ls \<Rightarrow> (c # l) # ls | [] \<Rightarrow> [[c]]))"

text \<open>Line 143: \<^verbatim>\<open>chunk.split('\n').filter(line => line.trim() !== '')\<close>.\<close>

definition chunk_lines :: "string \<Rightarrow> string list" where
  "chunk_lines chunk = filter (\<lambda>line. trim line \<noteq> []) (split_nl chunk)"

text \<open>Decimal digits of a number, as a template literal prints an integer.\<close>

definition digit :: "nat \<Rightarrow> char" where
  "digit d = ''0123456789'' ! d"

fun show_nat :: "nat \<Rightarrow> string" where
  "show_nat n = (if n < 10 then [digit n] else show_nat (n div 10) @ [digit (n mod 10)])"

subsection \<open>Values of the runtime\<close>

text \<open>
  The values \<^verbatim>\<open>JSON.parse\<close> can return. The page observes a number only through its
  truthiness and its string form, so a number carries these two observations
  (a double is not represented). An object lists its own properties, each key once.
  \<^verbatim>\<open>undefined\<close> is \<open>None\<close> of \<^typ>\<open>'a option\<close>.
\<close>

datatype json =
    JNull
  | JBool bool
  | JNum (nonzero: bool) (shown: string)
  | JStr string
  | JArr "json list"
  | JObj "(string \<times> json) list"

text \<open>An error object, by its name and message; \<open>errorString\<close> is what
  \<^verbatim>\<open>`${error}`\<close> prints (\<^verbatim>\<open>Error.prototype.toString\<close>).\<close>

datatype js_error = JsError (name: string) (message: string)

definition errorString :: "js_error \<Rightarrow> string" where
  "errorString e =
     (if name e = [] then message e
      else if message e = [] then name e
      else name e @ '': '' @ message e)"

text \<open>The wording of the two type errors is the engine's; no theorem depends on it.\<close>

definition nullReadError :: js_error where
  "nullReadError = JsError ''TypeError'' ''Cannot read properties of null''"

definition toPrimitiveError :: js_error where
  "toPrimitiveError = JsError ''TypeError'' ''Cannot convert object to primitive value''"

fun truthy :: "json option \<Rightarrow> bool" where
  "truthy None = False"
| "truthy (Some JNull) = False"
| "truthy (Some (JBool b)) = b"
| "truthy (Some (JNum nz s)) = nz"
| "truthy (Some (JStr s)) = (s \<noteq> [])"
| "truthy (Some (JArr xs)) = True"
| "truthy (Some (JObj ps)) = True"

text \<open>
  \<^verbatim>\<open>v.k\<close> for a property name \<open>k\<close> that no prototype defines, as \<^verbatim>\<open>message\<close>, \<^verbatim>\<open>content\<close>
  and \<^verbatim>\<open>done\<close> are: reading from \<^verbatim>\<open>null\<close> or \<^verbatim>\<open>undefined\<close> throws, an object gives its
  own property, every other value gives \<^verbatim>\<open>undefined\<close>.
\<close>

fun getProp :: "json option \<Rightarrow> string \<Rightarrow> js_error + json option" where
  "getProp None k = Inl nullReadError"
| "getProp (Some JNull) k = Inl nullReadError"
| "getProp (Some (JObj ps)) k = Inr (map_of ps k)"
| "getProp (Some v) k = Inr None"

text \<open>
  The string that \<^verbatim>\<open>s += v\<close> appends. An array joins its elements with commas, \<^verbatim>\<open>null\<close>
  elements printing as nothing; an object prints through \<^verbatim>\<open>Object.prototype.toString\<close>
  unless an own property \<^verbatim>\<open>toString\<close> (never callable in a parsed value) hides it, in
  which case the conversion throws.
\<close>

fun toString :: "json \<Rightarrow> js_error + string"
  and joinElements :: "json list \<Rightarrow> js_error + string" where
  "toString JNull = Inr ''null''"
| "toString (JBool b) = Inr (if b then ''true'' else ''false'')"
| "toString (JNum nz s) = Inr s"
| "toString (JStr s) = Inr s"
| "toString (JArr xs) = joinElements xs"
| "toString (JObj ps) =
     (if ''toString'' \<in> set (map fst ps) then Inl toPrimitiveError else Inr ''[object Object]'')"
| "joinElements [] = Inr []"
| "joinElements (x # xs) =
     (case (if x = JNull then Inr [] else toString x) of
        Inl e \<Rightarrow> Inl e
      | Inr s \<Rightarrow>
          (if xs = [] then Inr s
           else (case joinElements xs of Inl e \<Rightarrow> Inl e | Inr r \<Rightarrow> Inr (s @ '','' @ r))))"

subsection \<open>Messages and component state\<close>

text \<open>A message of the conversation (lines 6 to 9); the field \<open>text'\<close> is \<^verbatim>\<open>text\<close>, and
  \<open>AI\<close> is the sender \<^verbatim>\<open>'ai'\<close>.\<close>

datatype Sender = User | AI

record Message =
  sender :: Sender
  text' :: string

text \<open>A message of the request (lines 12 to 15).\<close>

datatype Role = RoleUser | RoleAssistant

record OllamaMessage =
  role :: Role
  content :: string

text \<open>The body of the request of lines 116 to 120.\<close>

record ChatRequest =
  model :: string
  request_messages :: "OllamaMessage list"
  stream :: bool

text \<open>The \<^verbatim>\<open>useState\<close> cells of \<^verbatim>\<open>Home\<close> (lines 68 to 74).\<close>

record Home =
  messages :: "Message list"
  inputText :: string
  isListening :: bool
  ttsEnabled :: bool
  isLoading :: bool
  currentModel :: string
  isSettingsOpen :: bool

text \<open>What the read loop works on: the \<^verbatim>\<open>messages\<close> cell and the two locals of lines 133, 134.\<close>

record Loop =
  prev :: "Message list"
  aiResponseText :: string
  firstChunk :: bool

subsection \<open>The transport\<close>

text \<open>What \<^verbatim>\<open>await reader.read()\<close> gives: a chunk, the end of the stream (\<^verbatim>\<open>done\<close>), or a
  rejection. A reader is the sequence of its answers, the first read having index 0.\<close>

datatype ReadResult = Chunk string | Done | Failed js_error

type_synonym Reader = "nat \<Rightarrow> ReadResult"

text \<open>What \<^verbatim>\<open>await fetch(...)\<close> gives: a rejection, or a response with \<^verbatim>\<open>ok\<close>,
  \<^verbatim>\<open>status\<close> and \<^verbatim>\<open>body\<close>, which may be \<^verbatim>\<open>null\<close>.\<close>

datatype Fetched =
    Rejected js_error
  | Response (ok: bool) (status: nat) (body: "Reader option")

subsection \<open>One line\<close>

text \<open>Lines 156 to 168, the updater of a later content: the last message is rewritten when
  it is the assistant's; otherwise, and when there is no message at all (\<^verbatim>\<open>prev[-1]\<close> is
  \<^verbatim>\<open>undefined\<close>, whose sender is not \<^verbatim>\<open>'ai'\<close>), a new one is appended.\<close>

definition updateLast :: "Message list \<Rightarrow> string \<Rightarrow> Message list" where
  "updateLast ms t =
     (let lastMsgIndex = length ms - 1
      in if ms \<noteq> [] \<and> sender (ms ! lastMsgIndex) = AI
         then ms[lastMsgIndex := (ms ! lastMsgIndex)\<lparr>text' := t\<rparr>]
         else ms @ [\<lparr>sender = AI, text' = t\<rparr>])"

text \<open>Lines 148 to 169, once the content has been converted to the string \<open>delta\<close>: the
  first content of a cycle appends the reply (line 152), a later one goes through
  \<open>updateLast\<close>. The text written is the running text at the moment the update is issued.
  In the page the three updaters read the local \<^verbatim>\<open>aiResponseText\<close> when React runs
  them, which is after the lines of the chunk have been handled, so a reply message that
  another message has followed within the same chunk shows the running text of the end of
  the chunk there, and the text of its own moment here. The senders, the number and order
  of the messages, the running text, \<open>firstChunk\<close> and the text of a reply that is the last
  message when the chunk has been handled do not depend on that moment; where a
  statement below gives the text of an earlier reply message, it is the text of this model.\<close>

definition applyDelta :: "Loop \<Rightarrow> string \<Rightarrow> Loop" where
  "applyDelta st delta =
     (let t = aiResponseText st @ delta
      in if firstChunk st
         then st\<lparr>prev := prev st @ [\<lparr>sender = AI, text' = t\<rparr>], aiResponseText := t,
                 firstChunk := False\<rparr>
         else st\<lparr>prev := updateLast (prev st) t, aiResponseText := t\<rparr>)"

text \<open>Line 147: the value of \<^verbatim>\<open>parsedLine.message && parsedLine.message.content\<close>, which
  is the left operand when that is falsy and the right operand otherwise. Reading
  \<^verbatim>\<open>message\<close> throws when \<^verbatim>\<open>parsedLine\<close> is \<^verbatim>\<open>null\<close>.\<close>

definition messageContent :: "json \<Rightarrow> js_error + json option" where
  "messageContent parsedLine =
     (case getProp (Some parsedLine) ''message'' of
        Inl e \<Rightarrow> Inl e
      | Inr msg \<Rightarrow> (if truthy msg then getProp msg ''content'' else Inr msg))"

text \<open>Lines 146 to 174, the body of the inner \<^verbatim>\<open>try\<close>; \<open>Inl\<close> is a throw. A throw can
  come from \<^verbatim>\<open>JSON.parse\<close>, from reading \<^verbatim>\<open>message\<close> or from the conversion of the
  content to a string, each before the first assignment, so the state is then as it was.
  The test of \<^verbatim>\<open>parsedLine.done\<close> (line 171) guards an empty block: both its branches
  leave the state as the content has left it.\<close>

definition tryLine :: "(string \<Rightarrow> js_error + json) \<Rightarrow> Loop \<Rightarrow> string \<Rightarrow> js_error + Loop" where
  "tryLine JSON_parse st line =
     (case JSON_parse line of
        Inl e \<Rightarrow> Inl e
      | Inr parsedLine \<Rightarrow>
          (case (case messageContent parsedLine of
                   Inl e \<Rightarrow> Inl e
                 | Inr None \<Rightarrow> Inr st
                 | Inr (Some c) \<Rightarrow>
                     (if truthy (Some c)
                      then (case toString c of
                              Inl e \<Rightarrow> Inl e
                            | Inr delta \<Rightarrow> Inr (applyDelta st delta))
                      else Inr st)) of
             Inl e \<Rightarrow> Inl e
           | Inr st' \<Rightarrow>
               (case getProp (Some parsedLine) ''done'' of
                  Inl e \<Rightarrow> Inl e
                | Inr isDone \<Rightarrow> (if truthy isDone then Inr st' else Inr st'))))"

text \<open>Lines 145 to 179: the inner \<^verbatim>\<open>try\<close> with its \<^verbatim>\<open>catch\<close>, which appends the message
  of line 178.\<close>

definition decodeFailure :: "js_error \<Rightarrow> Message" where
  "decodeFailure e = \<lparr>sender = AI, text' = ''Error processing response: '' @ errorString e\<rparr>"

definition processLine :: "(string \<Rightarrow> js_error + json) \<Rightarrow> Loop \<Rightarrow> string \<Rightarrow> Loop" where
  "processLine JSON_parse st line =
     (case tryLine JSON_parse st line of
        Inr st' \<Rightarrow> st'
      | Inl e \<Rightarrow> st\<lparr>prev := prev st @ [decodeFailure e]\<rparr>)"

subsection \<open>The loops\<close>

text \<open>Line 144, \<^verbatim>\<open>for (const line of lines)\<close>.\<close>

fun forLines :: "(string \<Rightarrow> js_error + json) \<Rightarrow> Loop \<Rightarrow> string list \<Rightarrow> Loop" where
  "forLines JSON_parse st [] = st"
| "forLines JSON_parse st (line # rest) = forLines JSON_parse (processLine JSON_parse st line) rest"

text \<open>Lines 136 to 181, \<^verbatim>\<open>while (true)\<close>, from the read of index \<open>k\<close> on. The loop is left
  by \<^verbatim>\<open>break\<close> at the end of the stream and by the exception of a rejected read, which
  is returned beside the state; it is not left as long as chunks arrive.\<close>

partial_function (option) readLoop ::
  "(string \<Rightarrow> js_error + json) \<Rightarrow> Reader \<Rightarrow> nat \<Rightarrow> Loop \<Rightarrow> (Loop \<times> js_error option) option" where
  "readLoop JSON_parse reader k st =
     (case reader k of
        Done \<Rightarrow> Some (st, None)
      | Failed e \<Rightarrow> Some (st, Some e)
      | Chunk chunk \<Rightarrow>
          readLoop JSON_parse reader (Suc k) (forLines JSON_parse st (chunk_lines chunk)))"

subsection \<open>The whole invocation\<close>

text \<open>Lines 105 to 108.\<close>

definition toOllama :: "Message \<Rightarrow> OllamaMessage" where
  "toOllama msg = \<lparr>role = (if sender msg = User then RoleUser else RoleAssistant), content = text' msg\<rparr>"

text \<open>Line 184, the message of the outer \<^verbatim>\<open>catch\<close>.\<close>

definition connectFailure :: "js_error \<Rightarrow> Message" where
  \<open>connectFailure e =
     \<lparr>sender = AI, text' = ''Sorry, I couldn't connect to the AI. Error: '' @ errorString e\<rparr>\<close>

text \<open>Lines 111 to 181, the body of the outer \<^verbatim>\<open>try\<close>: the messages when control leaves
  it, and the error thrown out of it, if any. Messages appended before a rejected read stay.\<close>

definition tryFetch ::
  "(string \<Rightarrow> js_error + json) \<Rightarrow> Fetched \<Rightarrow> Message list \<Rightarrow> (Message list \<times> js_error option) option"
  where
  "tryFetch JSON_parse fetched ms =
     (case fetched of
        Rejected e \<Rightarrow> Some (ms, Some e)
      | Response ok' status' body' \<Rightarrow>
          (if \<not> ok'
           then Some (ms, Some (JsError ''Error'' (''HTTP error! status: '' @ show_nat status')))
           else (case body' of
                   None \<Rightarrow> Some (ms, Some (JsError ''Error'' ''Response body is null''))
                 | Some reader \<Rightarrow>
                     (case readLoop JSON_parse reader 0
                             \<lparr>prev = ms, aiResponseText = [], firstChunk = True\<rparr> of
                        None \<Rightarrow> None
                      | Some (st, thrown) \<Rightarrow> Some (prev st, thrown)))))"

text \<open>The result of an invocation that returns: the component state then, and the requests
  it has issued.\<close>

record Run =
  home :: Home
  requests :: "ChatRequest list"

text \<open>Lines 98 to 102: the user's message is appended, the input is emptied and the
  awaiting-response flag is set.\<close>

definition startCycle :: "Home \<Rightarrow> Home" where
  "startCycle h =
     (let newUserMessage = \<lparr>sender = User, text' = inputText h\<rparr>;
          updatedMessages = messages h @ [newUserMessage]
      in h\<lparr>messages := updatedMessages, inputText := [], isLoading := True\<rparr>)"

text \<open>Lines 95 to 188. After the guard of line 96 the cycle is started and the request is
  made from the updated messages; the outer \<^verbatim>\<open>catch\<close> appends the message of line 184
  and \<^verbatim>\<open>finally\<close> (line 186) clears the flag that \<open>startCycle\<close> has set.\<close>

definition sendMessage :: "(string \<Rightarrow> js_error + json) \<Rightarrow> Fetched \<Rightarrow> Home \<Rightarrow> Run option" where
  "sendMessage JSON_parse fetched h =
     (if trim (inputText h) = [] \<or> isLoading h then Some \<lparr>home = h, requests = []\<rparr>
      else
        (let h1 = startCycle h;
             ollamaMessages = map toOllama (messages h1)
         in (case tryFetch JSON_parse fetched (messages h1) of
               None \<Rightarrow> None
             | Some (ms, thrown) \<Rightarrow>
                 (let h2 = h1\<lparr>messages := ms\<rparr>;
                      h3 = (case thrown of
                              None \<Rightarrow> h2
                            | Some e \<Rightarrow> h2\<lparr>messages := messages h2 @ [connectFailure e]\<rparr>)
                  in Some \<lparr>home = h3\<lparr>isLoading := False\<rparr>,
                           requests = [\<lparr>model = currentModel h,
                                        request_messages = ollamaMessages,
                                        stream = True\<rparr>]\<rparr>))))"

subsection \<open>The states at the suspension points\<close>

text \<open>
  An invocation is suspended at \<^verbatim>\<open>await fetch\<close> (line 111) and at every
  \<^verbatim>\<open>await reader.read()\<close> (line 137); these are the states in which the page is rendered
  while the invocation is under way. \<open>loopAt\<close> is the state of the loop when it awaits the
  read of index \<open>k\<close>, if it gets that far.
\<close>

fun loopAt :: "(string \<Rightarrow> js_error + json) \<Rightarrow> Reader \<Rightarrow> Loop \<Rightarrow> nat \<Rightarrow> Loop option" where
  "loopAt JSON_parse reader st 0 = Some st"
| "loopAt JSON_parse reader st (Suc k) =
     (case loopAt JSON_parse reader st k of
        None \<Rightarrow> None
      | Some st' \<Rightarrow>
          (case reader k of
             Chunk chunk \<Rightarrow> Some (forLines JSON_parse st' (chunk_lines chunk))
           | Done \<Rightarrow> None
           | Failed e \<Rightarrow> None))"

text \<open>The component state at the suspension of index \<open>j\<close>: index 0 is \<^verbatim>\<open>await fetch\<close>,
  index \<open>k + 1\<close> the read of index \<open>k\<close>.\<close>

definition sendMessage_await ::
  "(string \<Rightarrow> js_error + json) \<Rightarrow> Fetched \<Rightarrow> Home \<Rightarrow> nat \<Rightarrow> Home option" where
  "sendMessage_await JSON_parse fetched h j =
     (if trim (inputText h) = [] \<or> isLoading h then None
      else
        (let h1 = startCycle h
         in if j = 0 then Some h1
            else (case fetched of
                    Rejected e \<Rightarrow> None
                  | Response ok' status' body' \<Rightarrow>
                      (if \<not> ok' then None
                       else (case body' of
                               None \<Rightarrow> None
                             | Some reader \<Rightarrow>
                                 map_option (\<lambda>st. h1\<lparr>messages := prev st\<rparr>)
                                   (loopAt JSON_parse reader
                                      \<lparr>prev = messages h1, aiResponseText = [],
                                       firstChunk = True\<rparr> (j - 1)))))))"

subsection \<open>A decoder for the examples\<close>

text \<open>
  The concrete examples need a concrete decoder. \<open>parseFragmentLine\<close> decodes the lines
  the examples use, \<^verbatim>\<open>{"done":true}\<close>, \<^verbatim>\<open>{"message":{"role":"assistant"},"done":true}\<close>
  and \<^verbatim>\<open>{"message":{"content":"..."}}\<close> with a text free of quotes, backslashes and
  control characters, to the value \<^verbatim>\<open>JSON.parse\<close> returns for them, and reports a syntax error
  for any other line, as \<^verbatim>\<open>JSON.parse\<close> does for the other lines of the examples
  (\<^verbatim>\<open>not-json\<close> and the two halves of a fragment cut in the middle); the wording of
  the error is the engine's. It is not a JSON parser; the general theorems do not mention
  it.
\<close>

definition stripPrefix :: "string \<Rightarrow> string \<Rightarrow> string option" where
  "stripPrefix p s = (if take (length p) s = p then Some (drop (length p) s) else None)"

definition plainText :: "string \<Rightarrow> bool" where
  "plainText s = list_all (\<lambda>c. c \<noteq> CHR 0x22 \<and> c \<noteq> CHR 0x5C \<and> (32::nat) \<le> of_char c) s"

definition parseFragmentLine :: "string \<Rightarrow> js_error + json" where
  \<open>parseFragmentLine line =
     (if line = ''{"done":true}'' then Inr (JObj [(''done'', JBool True)])
      else if line = ''{"message":{"role":"assistant"},"done":true}''
      then Inr (JObj [(''message'', JObj [(''role'', JStr ''assistant'')]), (''done'', JBool True)])
      else
        (case stripPrefix ''{"message":{"content":"'' line of
           None \<Rightarrow> Inl (JsError ''SyntaxError'' ''Unexpected token'')
         | Some r \<Rightarrow>
             (case stripPrefix (rev ''"}}'') (rev r) of
                None \<Rightarrow> Inl (JsError ''SyntaxError'' ''Unexpected token'')
              | Some t \<Rightarrow>
                  (if plainText t
                   then Inr (JObj [(''message'', JObj [(''content'', JStr (rev t))])])
                   else Inl (JsError ''SyntaxError'' ''Unexpected token'')))))\<close>

subsection \<open>Notions of the specification\<close>

text \<open>The error a line makes the inner \<^verbatim>\<open>try\<close> throw, if any: such a line is malformed.\<close>

definition lineError :: "(string \<Rightarrow> js_error + json) \<Rightarrow> string \<Rightarrow> js_error option" where
  "lineError JSON_parse line =
     (case JSON_parse line of
        Inl e \<Rightarrow> Some e
      | Inr parsedLine \<Rightarrow>
          (case messageContent parsedLine of
             Inl e \<Rightarrow> Some e
           | Inr None \<Rightarrow> None
           | Inr (Some c) \<Rightarrow>
               (if truthy (Some c)
                then (case toString c of Inl e \<Rightarrow> Some e | Inr delta \<Rightarrow> None)
                else None)))"

text \<open>The content delta of a line: the text its fragment adds to the reply, if it adds any.\<close>

definition lineDelta :: "(string \<Rightarrow> js_error + json) \<Rightarrow> string \<Rightarrow> string option" where
  "lineDelta JSON_parse line =
     (case JSON_parse line of
        Inl e \<Rightarrow> None
      | Inr parsedLine \<Rightarrow>
          (case messageContent parsedLine of
             Inl e \<Rightarrow> None
           | Inr None \<Rightarrow> None
           | Inr (Some c) \<Rightarrow>
               (if truthy (Some c)
                then (case toString c of Inl e \<Rightarrow> None | Inr delta \<Rightarrow> Some delta)
                else None)))"

text \<open>A reader that delivers the chunks \<open>cs\<close> and answers \<open>fin\<close> from then on, and the error
  with which an answer makes the loop end.\<close>

definition streamOf :: "string list \<Rightarrow> ReadResult \<Rightarrow> Reader" where
  "streamOf cs fin k = (if k < length cs then Chunk (cs ! k) else fin)"

fun isChunk :: "ReadResult \<Rightarrow> bool" where
  "isChunk (Chunk c) = True"
| "isChunk Done = False"
| "isChunk (Failed e) = False"

fun thrownBy :: "ReadResult \<Rightarrow> js_error option" where
  "thrownBy (Failed e) = Some e"
| "thrownBy Done = None"
| "thrownBy (Chunk c) = None"

text \<open>A reader delivers the chunks \<open>cs\<close> and then \<open>fin\<close>, which is not a chunk, when these
  are its answers to the reads of index 0 to \<open>length cs\<close>; what it would answer later is never
  asked.\<close>

definition delivers :: "Reader \<Rightarrow> string list \<Rightarrow> ReadResult \<Rightarrow> bool" where
  "delivers reader cs fin \<longleftrightarrow>
     list_all (\<lambda>k. reader k = Chunk (cs ! k)) [0..<length cs] \<and> reader (length cs) = fin \<and>
     \<not> isChunk fin"

text \<open>The state in which the read loop leaves a finite sequence of chunks.\<close>

fun readChunks :: "(string \<Rightarrow> js_error + json) \<Rightarrow> Loop \<Rightarrow> string list \<Rightarrow> Loop" where
  "readChunks JSON_parse st [] = st"
| "readChunks JSON_parse st (chunk # rest) =
     readChunks JSON_parse (forLines JSON_parse st (chunk_lines chunk)) rest"

text \<open>The content field of a fragment: the property \<^verbatim>\<open>content\<close> of its property
  \<^verbatim>\<open>message\<close>, when the fragment has a message that is an object with that property.\<close>

fun contentField :: "json \<Rightarrow> json option" where
  "contentField (JObj ps) =
     (case map_of ps ''message'' of
        Some (JObj qs) \<Rightarrow> map_of qs ''content''
      | _ \<Rightarrow> None)"
| "contentField v = None"

text \<open>The candidate lines of a sequence of chunks and their content deltas, in arrival order.\<close>

definition allLines :: "string list \<Rightarrow> string list" where
  "allLines cs = concat (map chunk_lines cs)"

definition contentDeltas :: "(string \<Rightarrow> js_error + json) \<Rightarrow> string list \<Rightarrow> string list" where
  "contentDeltas JSON_parse ls = List.map_filter (lineDelta JSON_parse) ls"

text \<open>A chunk that is empty or ends with a newline: the next chunk starts a new line.\<close>

definition endsLine :: "string \<Rightarrow> bool" where
  "endsLine chunk \<longleftrightarrow> chunk = [] \<or> last chunk = CHR ''\<newline>''"

text \<open>The state a loop starts from (lines 133, 134) and a component state for the examples.\<close>

definition startLoop :: "Message list \<Rightarrow> Loop" where
  "startLoop ms = \<lparr>prev = ms, aiResponseText = [], firstChunk = True\<rparr>"

definition idleHome :: "string \<Rightarrow> Home" where
  "idleHome input =
     \<lparr>messages = [], inputText = input, isListening = False, ttsEnabled = False,
      isLoading = False, currentModel = ''llama3.2'', isSettingsOpen = False\<rparr>"

definition nl :: string where
  "nl = [CHR ''\<newline>'']"


section \<open>Properties\<close>

lemmas eval_defs = chunk_lines_def trim_def isWhiteSpace_def nl_def parseFragmentLine_def
  stripPrefix_def plainText_def processLine_def tryLine_def messageContent_def applyDelta_def
  updateLast_def decodeFailure_def connectFailure_def errorString_def startLoop_def idleHome_def
  allLines_def lineError_def lineDelta_def contentDeltas_def endsLine_def digit_def
  startCycle_def Let_def

subsection \<open>Strings\<close>

lemma trim_Nil_iff: "trim s = [] \<longleftrightarrow> list_all isWhiteSpace s"
proof -
  let ?d = "dropWhile isWhiteSpace s"
  have "(\<forall>x\<in>set ?d. isWhiteSpace x) \<longleftrightarrow> ?d = []"
  proof
    assume all: "\<forall>x\<in>set ?d. isWhiteSpace x"
    show "?d = []"
    proof (rule ccontr)
      assume ne: "?d \<noteq> []"
      then have "\<not> isWhiteSpace (hd ?d)" by (rule hd_dropWhile)
      moreover have "hd ?d \<in> set ?d" using ne by simp
      ultimately show False using all by blast
    qed
  next
    assume "?d = []"
    then show "\<forall>x\<in>set ?d. isWhiteSpace x" by (simp only: list.set ball_empty)
  qed
  then show ?thesis
    by (simp add: trim_def dropWhile_eq_Nil_conv list_all_iff)
qed

lemma trim_Nil [simp]: "trim [] = []"
  by (simp add: trim_def)

lemma split_nl_not_Nil: "split_nl s \<noteq> []"
  by (induction s) (auto split: list.splits)

lemma split_nl_newline:
  "split_nl (a @ CHR ''\<newline>'' # b) = split_nl a @ split_nl b"
proof (induction a)
  case Nil
  show ?case by simp
next
  case (Cons c a)
  obtain l ls where "split_nl a = l # ls"
    using split_nl_not_Nil [of a] by (cases "split_nl a") auto
  with Cons show ?case by auto
qed

lemma chunk_lines_Nil [simp]: "chunk_lines [] = []"
  by (simp add: chunk_lines_def)

text \<open>After a chunk that ends a line, the next chunk is cut on its own.\<close>

lemma chunk_lines_append:
  assumes "endsLine c"
  shows "chunk_lines (c @ d) = chunk_lines c @ chunk_lines d"
proof (cases "c = []")
  case True
  then show ?thesis by simp
next
  case False
  with assms have "last c = CHR ''\<newline>''" by (simp add: endsLine_def)
  with False have c: "c = butlast c @ [CHR ''\<newline>'']"
    using append_butlast_last_id [of c] by simp
  have "split_nl c = split_nl (butlast c) @ [[]]"
    using split_nl_newline [of "butlast c" "[]"] c by simp
  moreover have "split_nl (c @ d) = split_nl (butlast c) @ split_nl d"
    using split_nl_newline [of "butlast c" d] c by (metis append.assoc append_Cons append_Nil)
  ultimately show ?thesis by (simp add: chunk_lines_def)
qed

lemma allLines_concat:
  "list_all endsLine (butlast cs) \<Longrightarrow> allLines cs = chunk_lines (concat cs)"
proof (induction cs)
  case Nil
  show ?case by (simp add: allLines_def)
next
  case (Cons c cs)
  show ?case
  proof (cases "cs = []")
    case True
    then show ?thesis by (simp add: allLines_def)
  next
    case False
    with Cons.prems have c: "endsLine c" and rest: "list_all endsLine (butlast cs)" by simp_all
    have "allLines (c # cs) = chunk_lines c @ allLines cs" by (simp add: allLines_def)
    then show ?thesis using Cons.IH [OF rest] chunk_lines_append [OF c] by simp
  qed
qed

subsection \<open>One line\<close>

lemma applyDelta_text [simp]: "aiResponseText (applyDelta st d) = aiResponseText st @ d"
  by (simp add: applyDelta_def Let_def)

lemma applyDelta_firstChunk [simp]: "firstChunk (applyDelta st d) = False"
  by (simp add: applyDelta_def Let_def)

lemma applyDelta_prev_first:
  "firstChunk st \<Longrightarrow>
   prev (applyDelta st d) = prev st @ [\<lparr>sender = AI, text' = aiResponseText st @ d\<rparr>]"
  by (simp add: applyDelta_def Let_def)

lemma applyDelta_prev_no_ai:
  "prev st = [] \<or> sender (last (prev st)) \<noteq> AI \<Longrightarrow>
   prev (applyDelta st d) = prev st @ [\<lparr>sender = AI, text' = aiResponseText st @ d\<rparr>]"
  by (auto simp: applyDelta_def updateLast_def Let_def last_conv_nth)

lemma applyDelta_prev_open:
  "\<not> firstChunk st \<Longrightarrow> prev st = ms @ [\<lparr>sender = AI, text' = t\<rparr>] \<Longrightarrow>
   prev (applyDelta st d) = ms @ [\<lparr>sender = AI, text' = aiResponseText st @ d\<rparr>]"
  by (simp add: applyDelta_def updateLast_def Let_def)

lemma updateLast_keeps_user:
  assumes "i < length ms" and "sender (ms ! i) = User"
  shows "i < length (updateLast ms t) \<and> updateLast ms t ! i = ms ! i"
proof (cases "ms \<noteq> [] \<and> sender (ms ! (length ms - 1)) = AI")
  case True
  with assms have "i \<noteq> length ms - 1" by auto
  with True assms show ?thesis by (simp add: updateLast_def Let_def)
next
  case False
  then have "updateLast ms t = ms @ [\<lparr>sender = AI, text' = t\<rparr>]"
    by (auto simp: updateLast_def Let_def)
  with assms show ?thesis by (simp add: nth_append)
qed

lemma applyDelta_keeps_user:
  assumes "i < length (prev st)" and "sender (prev st ! i) = User"
  shows "i < length (prev (applyDelta st d)) \<and> prev (applyDelta st d) ! i = prev st ! i"
  using assms updateLast_keeps_user [OF assms]
  by (simp add: applyDelta_def Let_def nth_append)

text \<open>A line either fails, and then only the message of line 178 is appended, or carries
  no content, and then nothing changes, or carries a content delta.\<close>

lemma getProp_throws: "getProp (Some v) k = Inl e \<Longrightarrow> v = JNull"
  by (cases v) simp_all

lemma messageContent_JNull [simp]: "messageContent JNull = Inl nullReadError"
  by (simp add: messageContent_def)

lemma tryLine_cases:
  "tryLine P st line =
     (case lineError P line of
        Some e \<Rightarrow> Inl e
      | None \<Rightarrow> (case lineDelta P line of None \<Rightarrow> Inr st | Some d \<Rightarrow> Inr (applyDelta st d)))"
proof (cases "P line")
  case (Inl e)
  then show ?thesis by (simp add: tryLine_def lineError_def lineDelta_def)
next
  case (Inr v)
  show ?thesis
  proof (cases "v = JNull")
    case True
    with Inr show ?thesis by (simp add: tryLine_def lineError_def lineDelta_def)
  next
    case False
    then obtain isDone where "getProp (Some v) ''done'' = Inr isDone"
      using getProp_throws [of v "''done''"] by (cases "getProp (Some v) ''done''") auto
    with Inr show ?thesis
      by (simp add: tryLine_def lineError_def lineDelta_def split: sum.splits option.splits)
  qed
qed

lemma processLine_cases:
  "processLine P st line =
     (case lineError P line of
        Some e \<Rightarrow> st\<lparr>prev := prev st @ [decodeFailure e]\<rparr>
      | None \<Rightarrow> (case lineDelta P line of None \<Rightarrow> st | Some d \<Rightarrow> applyDelta st d))"
  by (simp add: processLine_def tryLine_cases split: option.splits)

lemma lineError_parse_failure: "P l = Inl e \<Longrightarrow> lineError P l = Some e"
  by (simp add: lineError_def)

lemma lineError_Some_no_delta: "lineError P l = Some e \<Longrightarrow> lineDelta P l = None"
  by (auto simp: lineError_def lineDelta_def split: sum.splits option.splits if_splits)

lemma lineDelta_Some_no_error: "lineDelta P l = Some d \<Longrightarrow> lineError P l = None"
  using lineError_Some_no_delta [of P l] by (cases "lineError P l") auto

lemma lineDelta_string:
  assumes "P line = Inr (JObj ps)" and "map_of ps ''message'' = Some (JObj qs)"
    and "map_of qs ''content'' = Some (JStr d)" and "d \<noteq> []"
  shows "lineDelta P line = Some d" and "lineError P line = None"
  using assms by (simp_all add: lineError_def lineDelta_def messageContent_def)

lemma processLine_malformed:
  "lineError P line = Some e \<Longrightarrow> processLine P st line = st\<lparr>prev := prev st @ [decodeFailure e]\<rparr>"
  by (simp add: processLine_cases)

lemma processLine_text:
  "aiResponseText (processLine P st line) =
     aiResponseText st @ (case lineDelta P line of None \<Rightarrow> [] | Some d \<Rightarrow> d)"
  by (auto simp: processLine_cases lineError_Some_no_delta split: option.splits)

lemma processLine_keeps_user:
  assumes "i < length (prev st)" and "sender (prev st ! i) = User"
  shows "i < length (prev (processLine P st line)) \<and> prev (processLine P st line) ! i = prev st ! i"
  using assms applyDelta_keeps_user [OF assms]
  by (simp add: processLine_cases nth_append split: option.splits)

subsection \<open>The loops\<close>

lemma forLines_append:
  "forLines P st (xs @ ys) = forLines P (forLines P st xs) ys"
  by (induction xs arbitrary: st) simp_all

text \<open>A sequence of chunks is handled as the sequence of the candidate lines of all chunks.\<close>

lemma readChunks_forLines:
  "readChunks P st cs = forLines P st (allLines cs)"
  by (induction cs arbitrary: st) (simp_all add: forLines_append allLines_def)

lemma forLines_text:
  "aiResponseText (forLines P st ls) = aiResponseText st @ concat (contentDeltas P ls)"
proof (induction ls arbitrary: st)
  case Nil
  show ?case by (simp add: contentDeltas_def)
next
  case (Cons l ls)
  show ?case
    using Cons.IH [of "processLine P st l"]
    by (simp add: processLine_text contentDeltas_def split: option.splits)
qed

lemma forLines_keeps_user:
  "i < length (prev st) \<Longrightarrow> sender (prev st ! i) = User \<Longrightarrow>
   i < length (prev (forLines P st ls)) \<and> prev (forLines P st ls) ! i = prev st ! i"
proof (induction ls arbitrary: st)
  case Nil
  then show ?case by simp
next
  case (Cons l ls)
  from processLine_keeps_user [OF Cons.prems, of P l]
  have 1: "i < length (prev (processLine P st l))" and 2: "prev (processLine P st l) ! i = prev st ! i"
    by simp_all
  from 2 Cons.prems(2) have 3: "sender (prev (processLine P st l) ! i) = User" by simp
  from Cons.IH [OF 1 3] 2 show ?case by simp
qed

text \<open>Once the reply is open and is the last message, lines that do not fail keep it so.\<close>

lemma forLines_clean_open:
  assumes "list_all (\<lambda>l. lineError P l = None) ls"
    and "\<not> firstChunk st" and "prev st = ms @ [\<lparr>sender = AI, text' = aiResponseText st\<rparr>]"
  shows "prev (forLines P st ls) = ms @ [\<lparr>sender = AI, text' = aiResponseText (forLines P st ls)\<rparr>]"
  using assms
proof (induction ls arbitrary: st)
  case Nil
  then show ?case by simp
next
  case (Cons l ls)
  from Cons.prems(1) have clean: "lineError P l = None"
    and rest: "list_all (\<lambda>l. lineError P l = None) ls"
    by simp_all
  show ?case
  proof (cases "lineDelta P l")
    case None
    then have "processLine P st l = st" using clean by (simp add: processLine_cases)
    then show ?thesis using Cons.IH [OF rest Cons.prems(2,3)] by simp
  next
    case (Some d)
    then have step: "processLine P st l = applyDelta st d"
      using clean by (simp add: processLine_cases)
    have "prev (applyDelta st d) = ms @ [\<lparr>sender = AI, text' = aiResponseText (applyDelta st d)\<rparr>]"
      using applyDelta_prev_open [OF Cons.prems(2,3)] by simp
    then show ?thesis
      using Cons.IH [OF rest, of "applyDelta st d"] step by simp
  qed
qed

lemma forLines_clean_first:
  assumes "list_all (\<lambda>l. lineError P l = None) ls" and "firstChunk st"
  shows "prev (forLines P st ls) =
           (if contentDeltas P ls = [] then prev st
            else prev st @ [\<lparr>sender = AI, text' = aiResponseText (forLines P st ls)\<rparr>])"
  using assms
proof (induction ls arbitrary: st)
  case Nil
  then show ?case by (simp add: contentDeltas_def)
next
  case (Cons l ls)
  from Cons.prems(1) have clean: "lineError P l = None"
    and rest: "list_all (\<lambda>l. lineError P l = None) ls"
    by simp_all
  show ?case
  proof (cases "lineDelta P l")
    case None
    then have "processLine P st l = st" using clean by (simp add: processLine_cases)
    then show ?thesis using Cons.IH [OF rest Cons.prems(2)] None by (simp add: contentDeltas_def)
  next
    case (Some d)
    then have step: "processLine P st l = applyDelta st d"
      using clean by (simp add: processLine_cases)
    have "prev (applyDelta st d) = prev st @ [\<lparr>sender = AI, text' = aiResponseText (applyDelta st d)\<rparr>]"
      using applyDelta_prev_first [OF Cons.prems(2)] by simp
    then have "prev (forLines P (applyDelta st d) ls) =
        prev st @ [\<lparr>sender = AI, text' = aiResponseText (forLines P (applyDelta st d) ls)\<rparr>]"
      using forLines_clean_open [OF rest, of "applyDelta st d" "prev st"] by simp
    then show ?thesis using step Some by (simp add: contentDeltas_def)
  qed
qed

subsection \<open>The read loop\<close>

text \<open>On a reader that delivers finitely many chunks the loop ends, in the state the chunks
  lead to.\<close>

lemma readLoop_streamOf_from:
  assumes "\<not> isChunk fin"
  shows "k \<le> length cs \<Longrightarrow>
    readLoop P (streamOf cs fin) k st = Some (readChunks P st (drop k cs), thrownBy fin)"
proof (induction "length cs - k" arbitrary: k st)
  case 0
  then have k: "k = length cs" by simp
  then have "streamOf cs fin k = fin" by (simp add: streamOf_def)
  with assms k show ?case
    by (cases fin) (simp_all add: readLoop.simps)
next
  case (Suc n)
  then have lt: "k < length cs" by simp
  then have here: "streamOf cs fin k = Chunk (cs ! k)" by (simp add: streamOf_def)
  have "n = length cs - Suc k" using Suc.hyps(2) by simp
  from Suc.hyps(1) [OF this] lt
  have "readLoop P (streamOf cs fin) (Suc k) s = Some (readChunks P s (drop (Suc k) cs), thrownBy fin)"
    for s by simp
  moreover have "drop k cs = cs ! k # drop (Suc k) cs"
    using lt by (simp add: Cons_nth_drop_Suc)
  ultimately show ?case
    by (subst readLoop.simps) (simp add: here)
qed

lemma readLoop_streamOf:
  "\<not> isChunk fin \<Longrightarrow>
   readLoop P (streamOf cs fin) 0 st = Some (readChunks P st cs, thrownBy fin)"
  using readLoop_streamOf_from [of fin 0 cs P st] by simp

text \<open>The loop asks for no answer beyond the first that is not a chunk.\<close>

lemma readLoop_agree_from:
  assumes "\<not> isChunk (r n)"
  shows "k \<le> n \<Longrightarrow> (\<And>j. k \<le> j \<Longrightarrow> j \<le> n \<Longrightarrow> r' j = r j) \<Longrightarrow>
    readLoop P r' k st = readLoop P r k st"
proof (induction "n - k" arbitrary: k st)
  case 0
  then have "k = n" by simp
  with 0 assms have "r' k = r k" "\<not> isChunk (r k)" by simp_all
  then show ?case
    by (cases "r k") (simp_all add: readLoop.simps)
next
  case (Suc m)
  then have lt: "k < n" by simp
  have same: "r' k = r k" using Suc.prems by simp
  have "m = n - Suc k" using Suc.hyps(2) by simp
  from Suc.hyps(1) [OF this] lt Suc.prems(2)
  have step: "readLoop P r' (Suc k) s = readLoop P r (Suc k) s" for s by simp
  show ?case
    by (subst readLoop.simps, subst (2) readLoop.simps) (simp add: same step split: ReadResult.splits)
qed

lemma delivers_streamOf: "\<not> isChunk fin \<Longrightarrow> delivers (streamOf cs fin) cs fin"
  by (simp add: delivers_def streamOf_def list_all_iff)

lemma readLoop_delivers:
  assumes "delivers r cs fin"
  shows "readLoop P r 0 st = Some (readChunks P st cs, thrownBy fin)"
proof -
  from assms have fin: "\<not> isChunk fin" and last: "r (length cs) = fin"
    and chunks: "\<And>j. j < length cs \<Longrightarrow> r j = Chunk (cs ! j)"
    by (simp_all add: delivers_def list_all_iff)
  have "streamOf cs fin j = r j" if "j \<le> length cs" for j
    using that chunks [of j] last by (cases "j < length cs") (simp_all add: streamOf_def)
  moreover have "\<not> isChunk (r (length cs))" using fin last by simp
  ultimately have "readLoop P (streamOf cs fin) 0 st = readLoop P r 0 st"
    using readLoop_agree_from [of r "length cs" 0 "streamOf cs fin" P st] by simp
  then show ?thesis using readLoop_streamOf [OF fin, of P cs st] by simp
qed

text \<open>The loop ends as soon as some read is answered by something other than a chunk.\<close>

lemma readLoop_returns_from:
  assumes "\<not> isChunk (r n)"
  shows "k \<le> n \<Longrightarrow> \<exists>res. readLoop P r k st = Some res"
proof (induction "n - k" arbitrary: k st)
  case 0
  then have "k = n" by simp
  with assms show ?case by (cases "r k") (simp_all add: readLoop.simps)
next
  case (Suc m)
  then have lt: "k < n" by simp
  have "m = n - Suc k" using Suc.hyps(2) by simp
  from Suc.hyps(1) [OF this] lt
  have step: "\<exists>res. readLoop P r (Suc k) s = Some res" for s by simp
  show ?case
  proof (cases "r k")
    case (Chunk c)
    then show ?thesis
      using step [of "forLines P st (chunk_lines c)"] by (subst readLoop.simps) simp
  next
    case Done
    then show ?thesis by (subst readLoop.simps) simp
  next
    case (Failed e)
    then show ?thesis by (subst readLoop.simps) simp
  qed
qed

text \<open>When the loop ends, it has handled some finite sequence of chunks.\<close>

lemma readLoop_some_chunks:
  assumes "readLoop P r k st = Some res"
  shows "\<exists>cs. fst res = readChunks P st cs"
proof (rule readLoop.raw_induct
    [where P = "\<lambda>P r k st res. \<exists>cs. fst res = readChunks P st cs", OF _ assms])
  fix f P r k st res
  assume IH: "\<And>P r k st res. f P r k st = Some res \<Longrightarrow> \<exists>cs. fst res = readChunks P st cs"
    and body: "(case r k of
        Chunk chunk \<Rightarrow> f P r (Suc k) (forLines P st (chunk_lines chunk))
      | Done \<Rightarrow> Some (st, None)
      | Failed e \<Rightarrow> Some (st, Some e)) = Some res"
  show "\<exists>cs. fst res = readChunks P st cs"
  proof (cases "r k")
    case (Chunk c)
    with body have "f P r (Suc k) (forLines P st (chunk_lines c)) = Some res" by simp
    from IH [OF this] obtain cs where "fst res = readChunks P (forLines P st (chunk_lines c)) cs"
      by blast
    then have "fst res = readChunks P st (c # cs)" by simp
    then show ?thesis by blast
  next
    case Done
    with body have "fst res = readChunks P st []" by auto
    then show ?thesis by blast
  next
    case (Failed e)
    with body have "fst res = readChunks P st []" by auto
    then show ?thesis by blast
  qed
qed

text \<open>When the loop ends, the reader has delivered finitely many chunks and then something
  that is not a chunk.\<close>

lemma delivers_Cons:
  assumes "r k = Chunk c" and "delivers (\<lambda>j. r (Suc k + j)) cs fin"
  shows "delivers (\<lambda>j. r (k + j)) (c # cs) fin"
proof -
  from assms(2) have fin: "\<not> isChunk fin" and last: "r (Suc k + length cs) = fin"
    and chunks: "\<And>j. j < length cs \<Longrightarrow> r (Suc k + j) = Chunk (cs ! j)"
    by (simp_all add: delivers_def list_all_iff)
  have "r (k + j) = Chunk ((c # cs) ! j)" if "j < length (c # cs)" for j
  proof (cases j)
    case 0
    then show ?thesis using assms(1) by simp
  next
    case (Suc i)
    then show ?thesis using that chunks [of i] by simp
  qed
  then show ?thesis using fin last by (simp add: delivers_def list_all_iff)
qed

lemma readLoop_Some_delivers_from:
  assumes "readLoop P r k st = Some res"
  shows "\<exists>cs fin. delivers (\<lambda>j. r (k + j)) cs fin"
proof (rule readLoop.raw_induct
    [where P = "\<lambda>P r k st res. \<exists>cs fin. delivers (\<lambda>j. r (k + j)) cs fin", OF _ assms])
  fix f P r k st res
  assume IH: "\<And>P r k st res. f P r k st = Some res \<Longrightarrow>
      \<exists>cs fin. delivers (\<lambda>j. r (k + j)) cs fin"
    and body: "(case r k of
        Chunk chunk \<Rightarrow> f P r (Suc k) (forLines P st (chunk_lines chunk))
      | Done \<Rightarrow> Some (st, None)
      | Failed e \<Rightarrow> Some (st, Some e)) = Some res"
  show "\<exists>cs fin. delivers (\<lambda>j. r (k + j)) cs fin"
  proof (cases "r k")
    case (Chunk c)
    with body have "f P r (Suc k) (forLines P st (chunk_lines c)) = Some res" by simp
    from IH [OF this] obtain cs fin where "delivers (\<lambda>j. r (Suc k + j)) cs fin" by blast
    from delivers_Cons [OF Chunk this] show ?thesis by blast
  next
    case Done
    then have "delivers (\<lambda>j. r (k + j)) [] Done" by (simp add: delivers_def)
    then show ?thesis by blast
  next
    case (Failed e)
    then have "delivers (\<lambda>j. r (k + j)) [] (Failed e)" by (simp add: delivers_def)
    then show ?thesis by blast
  qed
qed

lemma readLoop_Some_delivers:
  "readLoop P r 0 st = Some res \<Longrightarrow> \<exists>cs fin. delivers r cs fin"
  using readLoop_Some_delivers_from [of P r 0 st res] by simp

text \<open>On a reader that answers every read with a chunk the loop does not end.\<close>

lemma readLoop_diverges:
  assumes "\<And>j. isChunk (r j)"
  shows "readLoop P r k st = None"
proof -
  have "\<forall>P' k st. readLoop P' r k st = None"
  proof (rule readLoop.fixp_induct [where P = "\<lambda>f. \<forall>P' k st. f P' r k st = None"])
    show "option.admissible (\<lambda>f. \<forall>P' k st. curry (curry (curry f)) P' r k st = None)"
      by (intro admissible_all) (auto simp: ccpo.admissible_def fun_lub_def flat_lub_def intro!: exI)
  next
    show "\<forall>P' k st. None = (None :: (Loop \<times> js_error option) option)" by simp
  next
    fix f :: "(string \<Rightarrow> js_error + json) \<Rightarrow> Reader \<Rightarrow> nat \<Rightarrow> Loop \<Rightarrow> (Loop \<times> js_error option) option"
    assume IH: "\<forall>P' k st. f P' r k st = None"
    show "\<forall>P' k st. (case r k of
        Chunk chunk \<Rightarrow> f P' r (Suc k) (forLines P' st (chunk_lines chunk))
      | Done \<Rightarrow> Some (st, None)
      | Failed e \<Rightarrow> Some (st, Some e)) = None"
    proof (intro allI)
      fix P' k st
      from assms [of k] obtain c where "r k = Chunk c" by (cases "r k") auto
      with IH show "(case r k of
        Chunk chunk \<Rightarrow> f P' r (Suc k) (forLines P' st (chunk_lines chunk))
      | Done \<Rightarrow> Some (st, None)
      | Failed e \<Rightarrow> Some (st, Some e)) = None" by simp
    qed
  qed
  then show ?thesis by blast
qed

text \<open>The state of the loop at the read of index \<open>k\<close>, on a reader that delivers \<open>cs\<close>.\<close>

lemma readChunks_snoc:
  "readChunks P st (cs @ [c]) = forLines P (readChunks P st cs) (chunk_lines c)"
  by (induction cs arbitrary: st) simp_all

lemma loopAt_delivers:
  assumes "delivers r cs fin"
  shows "loopAt P r st k = (if k \<le> length cs then Some (readChunks P st (take k cs)) else None)"
proof (induction k)
  case 0
  show ?case by simp
next
  case (Suc k)
  from assms have fin: "\<not> isChunk fin" and last: "r (length cs) = fin"
    and chunks: "\<And>j. j < length cs \<Longrightarrow> r j = Chunk (cs ! j)"
    by (simp_all add: delivers_def list_all_iff)
  consider "k < length cs" | "k = length cs" | "length cs < k" by linarith
  then show ?case
  proof cases
    case 1
    then show ?thesis
      using Suc chunks [of k] by (simp add: take_Suc_conv_app_nth readChunks_snoc)
  next
    case 2
    then show ?thesis using Suc fin last by (cases fin) simp_all
  next
    case 3
    then show ?thesis using Suc by simp
  qed
qed

subsection \<open>The invocation\<close>

lemma tryFetch_delivers:
  "delivers r cs fin \<Longrightarrow>
   tryFetch P (Response True n (Some r)) ms =
     Some (prev (readChunks P (startLoop ms) cs), thrownBy fin)"
  by (simp add: tryFetch_def startLoop_def readLoop_delivers)

lemma startCycle_eq:
  "startCycle h =
     h\<lparr>messages := messages h @ [\<lparr>sender = User, text' = inputText h\<rparr>], inputText := [],
       isLoading := True\<rparr>"
  by (simp add: startCycle_def Let_def)

text \<open>An invocation that passes the guard.\<close>

lemma sendMessage_started:
  assumes "\<not> list_all isWhiteSpace (inputText h)" and "\<not> isLoading h"
  shows "sendMessage P fetched h =
     map_option
       (\<lambda>res. \<lparr>home = h\<lparr>messages :=
                    (case snd res of None \<Rightarrow> fst res | Some e \<Rightarrow> fst res @ [connectFailure e]),
                  inputText := [], isLoading := False\<rparr>,
               requests = [\<lparr>model = currentModel h,
                   request_messages =
                     map toOllama (messages h @ [\<lparr>sender = User, text' = inputText h\<rparr>]),
                   stream = True\<rparr>]\<rparr>)
       (tryFetch P fetched (messages h @ [\<lparr>sender = User, text' = inputText h\<rparr>]))"
  using assms
  by (simp add: sendMessage_def startCycle_eq trim_Nil_iff Let_def split: option.splits prod.splits)

lemma sendMessage_returns:
  assumes "\<not> list_all isWhiteSpace (inputText h)" and "\<not> isLoading h"
    and "tryFetch P fetched (messages h @ [\<lparr>sender = User, text' = inputText h\<rparr>]) = Some (ms, thrown)"
    and "sendMessage P fetched h = Some run"
  shows "home run =
     h\<lparr>messages := (case thrown of None \<Rightarrow> ms | Some e \<Rightarrow> ms @ [connectFailure e]),
       inputText := [], isLoading := False\<rparr>"
  using assms(3,4) by (cases thrown) (auto simp: sendMessage_started [OF assms(1,2)])

text \<open>The suspended states of an invocation whose reader delivers \<open>cs\<close>: one at
  \<^verbatim>\<open>await fetch\<close>, then one for each read, showing the messages the chunks read so far
  have led to.\<close>

lemma sendMessage_await_delivers:
  assumes "\<not> list_all isWhiteSpace (inputText h)" and "\<not> isLoading h"
    and "delivers r cs fin"
  shows "sendMessage_await P (Response True n (Some r)) h (Suc k) =
     (if k \<le> length cs
      then Some (h\<lparr>messages :=
                    prev (readChunks P
                            (startLoop (messages h @ [\<lparr>sender = User, text' = inputText h\<rparr>]))
                            (take k cs)),
                  inputText := [], isLoading := True\<rparr>)
      else None)"
  using assms(1,2)
  by (simp add: sendMessage_await_def startCycle_eq trim_Nil_iff Let_def
      loopAt_delivers [OF assms(3)] startLoop_def)

section \<open>The claims\<close>

subsection \<open>One reply, the concatenation of the deltas\<close>

text \<open>
  Claim C1, as stated, fails. A cycle whose only line is the done marker appends no
  assistant message at all, and a cycle with a malformed line appends the diagnostic of that
  line beside the reply, so the assistant messages a cycle appends are not always exactly
  one: here they are none, and two.
\<close>

theorem reply_not_always_one_message:
  \<open>map_option (messages \<circ> home)
      (sendMessage parseFragmentLine
        (Response True 200 (Some (streamOf [''{"done":true}'' @ nl] Done)))
        (idleHome ''hi'')) =
    Some [\<lparr>sender = User, text' = ''hi''\<rparr>]
   \<and> map_option (messages \<circ> home)
      (sendMessage parseFragmentLine
        (Response True 200
          (Some (streamOf [''not-json'' @ nl @ ''{"message":{"content":"ok"}}'' @ nl] Done)))
        (idleHome ''hi'')) =
    Some [\<lparr>sender = User, text' = ''hi''\<rparr>,
          \<lparr>sender = AI, text' = ''Error processing response: '' @
             errorString (JsError ''SyntaxError'' ''Unexpected token'')\<rparr>,
          \<lparr>sender = AI, text' = ''ok''\<rparr>]\<close>
  by (simp add: sendMessage_def tryFetch_def readLoop_streamOf eval_defs)

text \<open>
  Claim C1, amended. When the reader delivers the chunks \<open>cs\<close> and then ends or fails, the
  read loop ends with a running text that is the concatenation, in arrival order, of the
  content deltas of the decoded fragments. When moreover the stream ends normally and no
  line of the cycle fails, an invocation that passes the guard returns with the messages it
  found, the user's message and then no assistant message when no fragment carried a
  content delta, and otherwise exactly one, whose text is that concatenation.
\<close>

theorem reply_is_concatenation:
  assumes "\<not> list_all isWhiteSpace (inputText h)" and "\<not> isLoading h"
    and "delivers reader cs fin"
  shows "map_option (\<lambda>res. aiResponseText (fst res)) (readLoop P reader 0 (startLoop ms)) =
           Some (concat (contentDeltas P (allLines cs)))
    \<and> (fin = Done \<and> list_all (\<lambda>l. lineError P l = None) (allLines cs) \<longrightarrow>
        map_option (\<lambda>run. messages (home run))
          (sendMessage P (Response True n (Some reader)) h) =
        Some (messages h @ [\<lparr>sender = User, text' = inputText h\<rparr>] @
          (if contentDeltas P (allLines cs) = [] then []
           else [\<lparr>sender = AI, text' = concat (contentDeltas P (allLines cs))\<rparr>])))"
proof -
  let ?ms = "messages h @ [\<lparr>sender = User, text' = inputText h\<rparr>]"
  have rtext: "aiResponseText (readChunks P (startLoop m) cs) = concat (contentDeltas P (allLines cs))"
    for m
    by (simp add: readChunks_forLines forLines_text startLoop_def)
  have "prev (readChunks P (startLoop ?ms) cs) =
          ?ms @ (if contentDeltas P (allLines cs) = [] then []
                 else [\<lparr>sender = AI, text' = concat (contentDeltas P (allLines cs))\<rparr>])"
    if clean: "list_all (\<lambda>l. lineError P l = None) (allLines cs)"
  proof -
    have "firstChunk (startLoop ?ms)" by (simp add: startLoop_def)
    from forLines_clean_first [OF clean this]
    show ?thesis
      using rtext [of ?ms] by (simp add: readChunks_forLines startLoop_def)
  qed
  then show ?thesis
    using rtext [of ms]
    by (simp add: sendMessage_started [OF assms(1,2)] tryFetch_delivers [OF assms(3)]
        readLoop_delivers [OF assms(3)])
qed

theorem reply_is_concatenation_witness:
  \<open>map_option (\<lambda>res. aiResponseText (fst res))
     (readLoop parseFragmentLine
        (streamOf [''{"message":{"content":"Hel"}}'' @ nl, ''{"message":{"content":"lo"}}'' @ nl,
                   ''{"done":true}'' @ nl] Done)
        0 (startLoop [])) = Some ''Hello''
   \<and> map_option (\<lambda>run. messages (home run))
       (sendMessage parseFragmentLine
          (Response True 200
            (Some (streamOf [''{"message":{"content":"Hel"}}'' @ nl,
                             ''{"message":{"content":"lo"}}'' @ nl, ''{"done":true}'' @ nl] Done)))
          (idleHome ''hi'')) =
      Some [\<lparr>sender = User, text' = ''hi''\<rparr>, \<lparr>sender = AI, text' = ''Hello''\<rparr>]\<close>
proof -
  let ?cs = \<open>[''{"message":{"content":"Hel"}}'' @ nl, ''{"message":{"content":"lo"}}'' @ nl,
              ''{"done":true}'' @ nl]\<close>
  have 1: "\<not> list_all isWhiteSpace (inputText (idleHome ''hi''))"
    by (simp add: idleHome_def isWhiteSpace_def)
  have 2: "\<not> isLoading (idleHome ''hi'')" by (simp add: idleHome_def)
  have 3: "delivers (streamOf ?cs Done) ?cs Done" by (simp add: delivers_streamOf)
  have 4: "list_all (\<lambda>l. lineError parseFragmentLine l = None) (allLines ?cs)"
    by (simp add: eval_defs)
  have 5: "contentDeltas parseFragmentLine (allLines ?cs) = [''Hel'', ''lo'']"
    by (simp add: eval_defs)
  from reply_is_concatenation [OF 1 2 3, of parseFragmentLine "[]" 200] 4 5
  show ?thesis by (simp add: idleHome_def)
qed

subsection \<open>Chunk boundaries\<close>

text \<open>
  Claim C2, as stated, fails. Each chunk is cut at newlines on its own (line 143) and nothing
  is carried from one chunk to the next; a fragment delivered in two chunks is decoded as
  two lines, both malformed, and its content is lost. The same text in one chunk gives the
  running text \<^verbatim>\<open>ab\<close>, cut inside the line it gives the empty one.
\<close>

theorem chunking_changes_text:
  \<open>concat [''{"message":{"con'', ''tent":"ab"}}'' @ nl] = concat [''{"message":{"content":"ab"}}'' @ nl]
   \<and> map_option (aiResponseText \<circ> fst)
        (readLoop parseFragmentLine (streamOf [''{"message":{"content":"ab"}}'' @ nl] Done)
           0 (startLoop [])) = Some ''ab''
   \<and> map_option (aiResponseText \<circ> fst)
        (readLoop parseFragmentLine (streamOf [''{"message":{"con'', ''tent":"ab"}}'' @ nl] Done)
           0 (startLoop [])) = Some []\<close>
  by (simp add: readLoop_streamOf eval_defs)

text \<open>
  Claim C2, amended. Let two readers deliver the same text, cut into chunks in two ways,
  and then end or fail; if in each way every chunk but the last is empty or ends with a
  newline, the read loop ends for both with the same running text, which is the text it
  started with followed by the content deltas of the lines of the whole text.
\<close>

theorem chunking_at_line_ends:
  assumes "delivers r1 cs1 fin1" and "delivers r2 cs2 fin2" and "concat cs1 = concat cs2"
    and "list_all endsLine (butlast cs1)" and "list_all endsLine (butlast cs2)"
  shows "map_option (aiResponseText \<circ> fst) (readLoop P r1 0 st) =
           Some (aiResponseText st @ concat (contentDeltas P (chunk_lines (concat cs1))))
    \<and> map_option (aiResponseText \<circ> fst) (readLoop P r2 0 st) =
        map_option (aiResponseText \<circ> fst) (readLoop P r1 0 st)"
  using assms(3-5)
  by (simp add: readLoop_delivers [OF assms(1)] readLoop_delivers [OF assms(2)]
      readChunks_forLines allLines_concat forLines_text)

theorem chunking_at_line_ends_witness:
  \<open>map_option (aiResponseText \<circ> fst)
     (readLoop parseFragmentLine
        (streamOf [''{"message":{"content":"Hel"}}'' @ nl, ''{"message":{"content":"lo"}}'' @ nl] Done)
        0 (startLoop [])) = Some ''Hello''
   \<and> map_option (aiResponseText \<circ> fst)
     (readLoop parseFragmentLine
        (streamOf [''{"message":{"content":"Hel"}}'' @ nl @ ''{"message":{"content":"lo"}}'' @ nl] Done)
        0 (startLoop [])) = Some ''Hello''\<close>
proof -
  let ?cs1 = \<open>[''{"message":{"content":"Hel"}}'' @ nl, ''{"message":{"content":"lo"}}'' @ nl]\<close>
  let ?cs2 = \<open>[''{"message":{"content":"Hel"}}'' @ nl @ ''{"message":{"content":"lo"}}'' @ nl]\<close>
  have 1: "delivers (streamOf ?cs1 Done) ?cs1 Done" by (simp add: delivers_streamOf)
  have 2: "delivers (streamOf ?cs2 Done) ?cs2 Done" by (simp add: delivers_streamOf)
  have 3: "concat ?cs1 = concat ?cs2" by simp
  have 4: "list_all endsLine (butlast ?cs1)" by (simp add: endsLine_def nl_def)
  have 5: "list_all endsLine (butlast ?cs2)" by simp
  have 6: "aiResponseText (startLoop []) @
      concat (contentDeltas parseFragmentLine (chunk_lines (concat ?cs1))) = ''Hello''"
    by (simp add: eval_defs)
  from chunking_at_line_ends [OF 1 2 3 4 5, of parseFragmentLine "startLoop []"] 6
  show ?thesis by simp
qed

subsection \<open>Malformed lines\<close>

text \<open>
  Claim C3. A malformed line appends one diagnostic message (\<open>processLine_malformed\<close>), but
  the message does not always stay: once the reply is open, the next content rewrites the
  last message because its sender is the assistant, and that message is the diagnostic.
  Here a content, a malformed line and a second content arrive; the transcript ends with a
  stale copy of the reply and the whole reply, and without the diagnostic.
\<close>

theorem diagnostic_overwritten:
  \<open>map_option (messages \<circ> home)
     (sendMessage parseFragmentLine
        (Response True 200
          (Some (streamOf [''{"message":{"content":"a"}}'' @ nl @ ''not-json'' @ nl @
                           ''{"message":{"content":"b"}}'' @ nl] Done)))
        (idleHome ''hi'')) =
   Some [\<lparr>sender = User, text' = ''hi''\<rparr>, \<lparr>sender = AI, text' = ''a''\<rparr>,
         \<lparr>sender = AI, text' = ''ab''\<rparr>]\<close>
  by (simp add: sendMessage_def tryFetch_def readLoop_streamOf eval_defs)

text \<open>
  Claim C4. A line that makes the inner \<^verbatim>\<open>try\<close> throw, as a line that \<^verbatim>\<open>JSON.parse\<close>
  rejects does (\<open>lineError_parse_failure\<close>), does not stop the loops. Wherever it stands
  among the candidate lines of the chunks a reader delivers, the read loop ends, in the
  state reached by handling the lines before it, appending its diagnostic, and handling
  every line after it, of the same chunk and of the later ones; the running text is the text
  reached before it followed by the content deltas of the lines after it.
\<close>

theorem malformed_line_does_not_halt:
  assumes "delivers reader cs fin"
    and "allLines cs = pre @ bad # post" and "lineError P bad = Some e"
  shows "readLoop P reader 0 st =
           Some (forLines P ((forLines P st pre)\<lparr>prev := prev (forLines P st pre) @ [decodeFailure e]\<rparr>)
                   post, thrownBy fin)
         \<and> map_option (\<lambda>res. aiResponseText (fst res)) (readLoop P reader 0 st) =
           Some (aiResponseText (forLines P st pre) @ concat (contentDeltas P post))"
proof -
  have bad: "processLine P s bad = s\<lparr>prev := prev s @ [decodeFailure e]\<rparr>" for s
    using assms(3) by (simp add: processLine_cases)
  have run: "readChunks P st cs =
      forLines P ((forLines P st pre)\<lparr>prev := prev (forLines P st pre) @ [decodeFailure e]\<rparr>) post"
    by (simp add: readChunks_forLines assms(2) forLines_append bad)
  have "aiResponseText (readChunks P st cs) =
      aiResponseText (forLines P st pre) @ concat (contentDeltas P post)"
    by (simp add: run forLines_text)
  then show ?thesis
    using run by (simp add: readLoop_delivers [OF assms(1)])
qed

theorem malformed_line_does_not_halt_witness:
  \<open>readLoop parseFragmentLine
      (streamOf [''not-json'' @ nl @ ''{"message":{"content":"o"}}'' @ nl,
                 ''{"message":{"content":"k"}}'' @ nl] Done)
      0 (startLoop [\<lparr>sender = User, text' = ''hi''\<rparr>]) =
    Some (\<lparr>prev = [\<lparr>sender = User, text' = ''hi''\<rparr>,
                    decodeFailure (JsError ''SyntaxError'' ''Unexpected token''),
                    \<lparr>sender = AI, text' = ''ok''\<rparr>],
            aiResponseText = ''ok'', firstChunk = False\<rparr>, None)\<close>
proof -
  let ?cs = \<open>[''not-json'' @ nl @ ''{"message":{"content":"o"}}'' @ nl,
              ''{"message":{"content":"k"}}'' @ nl]\<close>
  have 1: "delivers (streamOf ?cs Done) ?cs Done" by (simp add: delivers_streamOf)
  have 2: \<open>allLines ?cs =
      [] @ ''not-json'' # [''{"message":{"content":"o"}}'', ''{"message":{"content":"k"}}'']\<close>
    by (simp add: eval_defs)
  have 3: "lineError parseFragmentLine ''not-json'' = Some (JsError ''SyntaxError'' ''Unexpected token'')"
    by (simp add: eval_defs)
  from malformed_line_does_not_halt [OF 1 2 3, of "startLoop [\<lparr>sender = User, text' = ''hi''\<rparr>]"]
  show ?thesis by (simp add: eval_defs)
qed

subsection \<open>The user's messages\<close>

text \<open>
  Claim C5. When the conversation is empty or its last message is not the assistant's, a
  fragment that carries a content delta (\<open>lineDelta_string\<close>) appends a new assistant
  message, whose text is the running text, and rewrites nothing. And no run of the read
  loop, on any reader, from any read and any state, changes or removes a message of the
  user: when the loop ends, the message is at its index as it was.
\<close>

theorem user_message_never_overwritten:
  assumes "prev st = [] \<or> sender (last (prev st)) \<noteq> AI" and "lineDelta P line = Some d"
  shows "prev (processLine P st line) = prev st @ [\<lparr>sender = AI, text' = aiResponseText st @ d\<rparr>]
    \<and> (\<forall>i r k s res.
          readLoop P r k s = Some res \<and> i < length (prev s) \<and> sender (prev s ! i) = User \<longrightarrow>
          i < length (prev (fst res)) \<and> prev (fst res) ! i = prev s ! i)"
proof -
  have "processLine P st line = applyDelta st d"
    using assms(2) lineDelta_Some_no_error [OF assms(2)] by (simp add: processLine_cases)
  then have first: "prev (processLine P st line) =
      prev st @ [\<lparr>sender = AI, text' = aiResponseText st @ d\<rparr>]"
    using applyDelta_prev_no_ai [OF assms(1)] by simp
  have "i < length (prev (fst res)) \<and> prev (fst res) ! i = prev s ! i"
    if "readLoop P r k s = Some res" "i < length (prev s)" "sender (prev s ! i) = User"
    for i r k s res
  proof -
    from readLoop_some_chunks [OF that(1)] obtain cs where "fst res = readChunks P s cs" ..
    then show ?thesis
      using forLines_keeps_user [OF that(2,3)] by (simp add: readChunks_forLines)
  qed
  with first show ?thesis by blast
qed

theorem user_message_never_overwritten_witness:
  \<open>prev (processLine parseFragmentLine
      \<lparr>prev = [\<lparr>sender = AI, text' = ''Hel''\<rparr>, \<lparr>sender = User, text' = ''wait''\<rparr>],
       aiResponseText = ''Hel'', firstChunk = False\<rparr>
      ''{"message":{"content":"lo"}}'') =
    [\<lparr>sender = AI, text' = ''Hel''\<rparr>, \<lparr>sender = User, text' = ''wait''\<rparr>,
     \<lparr>sender = AI, text' = ''Hello''\<rparr>]
   \<and> map_option (\<lambda>res. prev (fst res) ! 1)
       (readLoop parseFragmentLine
          (streamOf [''{"message":{"content":"lo"}}'' @ nl, ''not-json'' @ nl] Done) 0
          \<lparr>prev = [\<lparr>sender = AI, text' = ''Hel''\<rparr>, \<lparr>sender = User, text' = ''wait''\<rparr>],
           aiResponseText = ''Hel'', firstChunk = False\<rparr>) =
      Some \<lparr>sender = User, text' = ''wait''\<rparr>\<close>
proof -
  let ?st = "\<lparr>prev = [\<lparr>sender = AI, text' = ''Hel''\<rparr>, \<lparr>sender = User, text' = ''wait''\<rparr>],
       aiResponseText = ''Hel'', firstChunk = False\<rparr>"
  let ?r = \<open>streamOf [''{"message":{"content":"lo"}}'' @ nl, ''not-json'' @ nl] Done\<close>
  have 1: "prev ?st = [] \<or> sender (last (prev ?st)) \<noteq> AI" by simp
  have 2: \<open>lineDelta parseFragmentLine ''{"message":{"content":"lo"}}'' = Some ''lo''\<close>
    by (simp add: eval_defs)
  have 3: "1 < length (prev ?st) \<and> sender (prev ?st ! 1) = User" by simp
  obtain res where 4: "readLoop parseFragmentLine ?r 0 ?st = Some res"
    by (simp add: readLoop_streamOf)
  note inst = user_message_never_overwritten [OF 1 2]
  have A: \<open>prev (processLine parseFragmentLine ?st ''{"message":{"content":"lo"}}'') =
      prev ?st @ [\<lparr>sender = AI, text' = aiResponseText ?st @ ''lo''\<rparr>]\<close>
    using inst by (rule conjunct1)
  have B: "prev (fst res) ! 1 = prev ?st ! 1"
    using inst 3 4 by blast
  from A B 4 show ?thesis by simp
qed

subsection \<open>Failures of the transport\<close>

text \<open>
  Claim C6, as stated, fails for a body that is present and empty. Line 127 throws only
  when \<^verbatim>\<open>response.body\<close> is \<^verbatim>\<open>null\<close>; a body whose first read reports the end of the
  stream is an ordinary end of stream, and the cycle ends with the user's message alone, no
  diagnostic being appended.
\<close>

theorem empty_body_no_diagnostic:
  \<open>map_option (messages \<circ> home)
     (sendMessage parseFragmentLine (Response True 200 (Some (streamOf [] Done)))
        (idleHome ''hi'')) =
   Some [\<lparr>sender = User, text' = ''hi''\<rparr>]\<close>
  by (simp add: sendMessage_def tryFetch_def readLoop_streamOf startCycle_def eval_defs)

text \<open>
  Claim C6, amended. An invocation that passes the guard and whose request is rejected, or
  answered with a status that is not a success, or answered without a body
  (\<^verbatim>\<open>response.body\<close> is \<^verbatim>\<open>null\<close>), returns with the messages it found, the user's
  message and exactly one assistant message that reports the failure; when a read of the
  body is rejected after the chunks \<open>cs\<close>, it returns with the messages of the state in
  which that read was awaited and that one message after them. In the four cases the
  awaiting-response flag, which the cycle has set, ends false.
\<close>

theorem transport_failure_reported:
  assumes "\<not> list_all isWhiteSpace (inputText h)" and "\<not> isLoading h"
  shows "map_option home (sendMessage P (Rejected e) h) =
           Some (h\<lparr>messages := messages h @ [\<lparr>sender = User, text' = inputText h\<rparr>, connectFailure e],
                   inputText := [], isLoading := False\<rparr>)
    \<and> map_option home (sendMessage P (Response False n b) h) =
           Some (h\<lparr>messages := messages h @ [\<lparr>sender = User, text' = inputText h\<rparr>,
                      connectFailure (JsError ''Error'' (''HTTP error! status: '' @ show_nat n))],
                   inputText := [], isLoading := False\<rparr>)
    \<and> map_option home (sendMessage P (Response True n None) h) =
           Some (h\<lparr>messages := messages h @ [\<lparr>sender = User, text' = inputText h\<rparr>,
                      connectFailure (JsError ''Error'' ''Response body is null'')],
                   inputText := [], isLoading := False\<rparr>)
    \<and> (delivers reader cs (Failed e) \<longrightarrow>
        (\<exists>s. sendMessage_await P (Response True n (Some reader)) h (Suc (length cs)) = Some s
           \<and> isLoading s
           \<and> map_option home (sendMessage P (Response True n (Some reader)) h) =
               Some (s\<lparr>messages := messages s @ [connectFailure e], isLoading := False\<rparr>)))"
proof -
  have "\<exists>s. sendMessage_await P (Response True n (Some reader)) h (Suc (length cs)) = Some s
           \<and> isLoading s
           \<and> map_option home (sendMessage P (Response True n (Some reader)) h) =
               Some (s\<lparr>messages := messages s @ [connectFailure e], isLoading := False\<rparr>)"
    if d: "delivers reader cs (Failed e)"
  proof -
    let ?s = "h\<lparr>messages :=
        prev (readChunks P (startLoop (messages h @ [\<lparr>sender = User, text' = inputText h\<rparr>])) cs),
        inputText := [], isLoading := True\<rparr>"
    have "sendMessage_await P (Response True n (Some reader)) h (Suc (length cs)) = Some ?s"
      using sendMessage_await_delivers [OF assms d, of P n "length cs"] by simp
    moreover have "isLoading ?s" by simp
    moreover have "map_option home (sendMessage P (Response True n (Some reader)) h) =
        Some (?s\<lparr>messages := messages ?s @ [connectFailure e], isLoading := False\<rparr>)"
      by (simp add: sendMessage_started [OF assms] tryFetch_delivers [OF d])
    ultimately show ?thesis by blast
  qed
  then show ?thesis
    by (simp add: sendMessage_started [OF assms] tryFetch_def)
qed

theorem transport_failure_reported_witness:
  \<open>map_option home (sendMessage parseFragmentLine (Response False 500 None) (idleHome ''hi'')) =
    Some ((idleHome ''hi'')
      \<lparr>messages := [\<lparr>sender = User, text' = ''hi''\<rparr>,
         \<lparr>sender = AI,
          text' = ''Sorry, I couldn't connect to the AI. Error: Error: HTTP error! status: 500''\<rparr>],
       inputText := [], isLoading := False\<rparr>)
   \<and> map_option (messages \<circ> home)
      (sendMessage parseFragmentLine
        (Response True 200 (Some (streamOf [''{"message":{"content":"Hel"}}'' @ nl]
           (Failed (JsError ''TypeError'' ''network error'')))))
        (idleHome ''hi'')) =
    Some [\<lparr>sender = User, text' = ''hi''\<rparr>, \<lparr>sender = AI, text' = ''Hel''\<rparr>,
          connectFailure (JsError ''TypeError'' ''network error'')]\<close>
proof -
  let ?cs = \<open>[''{"message":{"content":"Hel"}}'' @ nl]\<close>
  let ?e = "JsError ''TypeError'' ''network error''"
  have 1: "\<not> list_all isWhiteSpace (inputText (idleHome ''hi''))"
    by (simp add: idleHome_def isWhiteSpace_def)
  have 2: "\<not> isLoading (idleHome ''hi'')" by (simp add: idleHome_def)
  have 3: "delivers (streamOf ?cs (Failed ?e)) ?cs (Failed ?e)" by (simp add: delivers_streamOf)
  note instA = transport_failure_reported [OF 1 2, where P = parseFragmentLine and n = 500
      and b = None]
  note instB = transport_failure_reported [OF 1 2, where P = parseFragmentLine and n = 200
      and reader = "streamOf ?cs (Failed ?e)" and cs = ?cs and e = ?e]
  have A: \<open>map_option home (sendMessage parseFragmentLine (Response False 500 None) (idleHome ''hi'')) =
      Some ((idleHome ''hi'')\<lparr>messages := messages (idleHome ''hi'') @
          [\<lparr>sender = User, text' = inputText (idleHome ''hi'')\<rparr>,
           connectFailure (JsError ''Error'' (''HTTP error! status: '' @ show_nat 500))],
        inputText := [], isLoading := False\<rparr>)\<close>
    using instA by blast
  have S: "sendMessage_await parseFragmentLine
        (Response True 200 (Some (streamOf ?cs (Failed ?e)))) (idleHome ''hi'') (Suc (length ?cs)) =
      Some ((idleHome ''hi'')\<lparr>messages := [\<lparr>sender = User, text' = ''hi''\<rparr>,
          \<lparr>sender = AI, text' = ''Hel''\<rparr>], inputText := [], isLoading := True\<rparr>)"
    by (simp add: sendMessage_await_def streamOf_def eval_defs)
  have B: "map_option home (sendMessage parseFragmentLine
        (Response True 200 (Some (streamOf ?cs (Failed ?e)))) (idleHome ''hi'')) =
      Some ((idleHome ''hi'')\<lparr>messages := [\<lparr>sender = User, text' = ''hi''\<rparr>,
          \<lparr>sender = AI, text' = ''Hel''\<rparr>, connectFailure ?e],
        inputText := [], isLoading := False\<rparr>)"
  proof -
    from instB 3 obtain s where
      s1: "sendMessage_await parseFragmentLine
        (Response True 200 (Some (streamOf ?cs (Failed ?e)))) (idleHome ''hi'') (Suc (length ?cs)) =
        Some s"
      and s2: "map_option home (sendMessage parseFragmentLine
        (Response True 200 (Some (streamOf ?cs (Failed ?e)))) (idleHome ''hi'')) =
        Some (s\<lparr>messages := messages s @ [connectFailure ?e], isLoading := False\<rparr>)"
      by blast
    from s1 S have "s = (idleHome ''hi'')\<lparr>messages := [\<lparr>sender = User, text' = ''hi''\<rparr>,
          \<lparr>sender = AI, text' = ''Hel''\<rparr>], inputText := [], isLoading := True\<rparr>"
      by simp
    with s2 show ?thesis by (simp add: idleHome_def)
  qed
  have C: "map_option (messages \<circ> home) x = map_option messages (map_option home x)"
    for x :: "Run option" by (simp add: option.map_comp)
  show ?thesis
    unfolding C A B
    by (simp add: idleHome_def connectFailure_def errorString_def digit_def eval_defs)
qed

subsection \<open>The awaiting-response flag\<close>

text \<open>
  Claim C7. An invocation that passes the guard, which requires the flag to be false, is
  first suspended in the state in which the cycle has been started, where the flag is set;
  the flag is true in every state in which the invocation is suspended; and whenever it
  returns, whatever the transport answered and whatever the lines decoded to, the state it
  returns is the last of the suspended states with the flag cleared, to which at most the
  message of the outer \<^verbatim>\<open>catch\<close> has been appended. It does return as soon as the
  transport answers: when the request is rejected, or answered with a failure status or
  without a body, and when some read of the body is answered by the end of the stream or by
  a rejection. (If every read is answered by a chunk, the loop does not end,
  \<open>readLoop_diverges\<close>, and there is no exit.)
\<close>

theorem loading_flag_cleared:
  assumes "\<not> list_all isWhiteSpace (inputText h)" and "\<not> isLoading h"
  shows "sendMessage_await P fetched h 0 = Some (startCycle h)
    \<and> (\<forall>j s. sendMessage_await P fetched h j = Some s \<longrightarrow> isLoading s)
    \<and> (\<forall>run. sendMessage P fetched h = Some run \<longrightarrow>
          \<not> isLoading (home run) \<and>
          (\<exists>j s. sendMessage_await P fetched h j = Some s \<and>
                 sendMessage_await P fetched h (Suc j) = None \<and>
                 (home run = s\<lparr>isLoading := False\<rparr> \<or>
                  (\<exists>e. home run = s\<lparr>messages := messages s @ [connectFailure e],
                                     isLoading := False\<rparr>))))
    \<and> ((\<forall>n r. fetched = Response True n (Some r) \<longrightarrow> \<not> isChunk (r k)) \<longrightarrow>
        sendMessage P fetched h \<noteq> None)"
proof -
  let ?ms = "messages h @ [\<lparr>sender = User, text' = inputText h\<rparr>]"
  let ?h1 = "h\<lparr>messages := ?ms, inputText := [], isLoading := True\<rparr>"
  have 1: "sendMessage_await P fetched h 0 = Some (startCycle h)"
    using assms by (simp add: sendMessage_await_def trim_Nil_iff Let_def)
  have start: "sendMessage_await P fetched h 0 = Some ?h1"
    using 1 by (simp add: startCycle_eq)
  have 2: "isLoading s" if "sendMessage_await P fetched h j = Some s" for j s
    using that assms
    by (auto simp: sendMessage_await_def startCycle_eq trim_Nil_iff Let_def
        split: if_splits Fetched.splits option.splits)
  have 3: "\<not> isLoading (home run) \<and>
          (\<exists>j s. sendMessage_await P fetched h j = Some s \<and>
                 sendMessage_await P fetched h (Suc j) = None \<and>
                 (home run = s\<lparr>isLoading := False\<rparr> \<or>
                  (\<exists>e. home run = s\<lparr>messages := messages s @ [connectFailure e],
                                     isLoading := False\<rparr>)))"
    if ret: "sendMessage P fetched h = Some run" for run
  proof -
    from ret obtain ms thrown where tf: "tryFetch P fetched ?ms = Some (ms, thrown)"
      by (cases "tryFetch P fetched ?ms") (auto simp: sendMessage_started [OF assms])
    note hr = sendMessage_returns [OF assms tf ret]
    have flag: "\<not> isLoading (home run)" by (simp add: hr)
    have tie: "\<exists>j s. sendMessage_await P fetched h j = Some s \<and>
                 sendMessage_await P fetched h (Suc j) = None \<and>
                 (home run = s\<lparr>isLoading := False\<rparr> \<or>
                  (\<exists>e. home run = s\<lparr>messages := messages s @ [connectFailure e],
                                     isLoading := False\<rparr>))"
    proof -
      consider (rejected) e where "fetched = Rejected e"
        | (failure) n b where "fetched = Response False n b"
        | (nobody) n where "fetched = Response True n None"
        | (stream) n r where "fetched = Response True n (Some r)"
      proof (cases fetched)
        case (Rejected e)
        then show ?thesis by (rule rejected)
      next
        case (Response ok' n b)
        then show ?thesis
          using failure [of n b] nobody [of n] stream [of n] by (cases ok'; cases b) simp_all
      qed
      then show ?thesis
      proof cases
        case rejected
        have none1: "sendMessage_await P fetched h (Suc 0) = None"
          using assms by (simp add: rejected sendMessage_await_def trim_Nil_iff Let_def)
        from tf have "ms = ?ms" and "thrown = Some e"
          by (simp_all add: rejected tryFetch_def)
        then have "home run = ?h1\<lparr>messages := messages ?h1 @ [connectFailure e], isLoading := False\<rparr>"
          by (simp add: hr)
        with start none1 show ?thesis by blast
      next
        case failure
        have none1: "sendMessage_await P fetched h (Suc 0) = None"
          using assms by (simp add: failure sendMessage_await_def trim_Nil_iff Let_def)
        from tf have "ms = ?ms"
          and "thrown = Some (JsError ''Error'' (''HTTP error! status: '' @ show_nat n))"
          by (simp_all add: failure tryFetch_def)
        then have "home run = ?h1\<lparr>messages := messages ?h1 @
            [connectFailure (JsError ''Error'' (''HTTP error! status: '' @ show_nat n))],
            isLoading := False\<rparr>"
          by (simp add: hr)
        with start none1 show ?thesis by blast
      next
        case nobody
        have none1: "sendMessage_await P fetched h (Suc 0) = None"
          using assms by (simp add: nobody sendMessage_await_def trim_Nil_iff Let_def)
        from tf have "ms = ?ms" and "thrown = Some (JsError ''Error'' ''Response body is null'')"
          by (simp_all add: nobody tryFetch_def)
        then have "home run = ?h1\<lparr>messages := messages ?h1 @
            [connectFailure (JsError ''Error'' ''Response body is null'')], isLoading := False\<rparr>"
          by (simp add: hr)
        with start none1 show ?thesis by blast
      next
        case stream
        from tf obtain res where
          "readLoop P r 0 \<lparr>prev = ?ms, aiResponseText = [], firstChunk = True\<rparr> = Some res"
          by (cases "readLoop P r 0 \<lparr>prev = ?ms, aiResponseText = [], firstChunk = True\<rparr>")
            (simp_all add: stream tryFetch_def)
        from readLoop_Some_delivers [OF this] obtain cs fin where d: "delivers r cs fin" by blast
        let ?M = "prev (readChunks P (startLoop ?ms) cs)"
        let ?s = "h\<lparr>messages := ?M, inputText := [], isLoading := True\<rparr>"
        have a1: "sendMessage_await P fetched h (Suc (length cs)) = Some ?s"
          using sendMessage_await_delivers [OF assms d, of P n "length cs"] by (simp add: stream)
        have a2: "sendMessage_await P fetched h (Suc (Suc (length cs))) = None"
          using sendMessage_await_delivers [OF assms d, of P n "Suc (length cs)"]
          by (simp add: stream)
        from tf have ms: "ms = ?M" and th: "thrown = thrownBy fin"
          by (simp_all add: stream tryFetch_delivers [OF d])
        have "home run = ?s\<lparr>isLoading := False\<rparr> \<or>
            (\<exists>e. home run = ?s\<lparr>messages := messages ?s @ [connectFailure e], isLoading := False\<rparr>)"
        proof (cases thrown)
          case None
          then have "home run = ?s\<lparr>isLoading := False\<rparr>" by (simp add: hr ms)
          then show ?thesis by blast
        next
          case (Some e)
          then have "home run = ?s\<lparr>messages := messages ?s @ [connectFailure e],
              isLoading := False\<rparr>"
            by (simp add: hr ms)
          then show ?thesis by blast
        qed
        with a1 a2 show ?thesis by blast
      qed
    qed
    from flag tie show ?thesis by blast
  qed
  have 4: "sendMessage P fetched h \<noteq> None"
    if ends: "\<forall>n r. fetched = Response True n (Some r) \<longrightarrow> \<not> isChunk (r k)"
  proof (cases fetched)
    case (Rejected e)
    then show ?thesis by (simp add: sendMessage_started [OF assms] tryFetch_def)
  next
    case (Response ok' n b)
    show ?thesis
    proof (cases "ok' \<and> b \<noteq> None")
      case False
      with Response show ?thesis
        by (auto simp: sendMessage_started [OF assms] tryFetch_def)
    next
      case True
      then obtain r where b: "b = Some r" and ok: ok' by auto
      with ends Response have "\<not> isChunk (r k)" by simp
      from readLoop_returns_from [where r = r and n = k and k = 0 and P = P, OF this]
      obtain res where "readLoop P r 0
          \<lparr>prev = messages h @ [\<lparr>sender = User, text' = inputText h\<rparr>], aiResponseText = [],
           firstChunk = True\<rparr> = Some res"
        by blast
      with Response b ok show ?thesis
        by (simp add: sendMessage_started [OF assms] tryFetch_def split: prod.splits)
    qed
  qed
  from 1 2 3 4 show ?thesis by blast
qed

theorem loading_flag_cleared_witness:
  \<open>map_option isLoading (sendMessage_await parseFragmentLine
      (Response True 200 (Some (streamOf [''{"message":{"content":"Hel"}}'' @ nl] Done)))
      (idleHome ''hi'') 0) = Some True
   \<and> map_option isLoading (sendMessage_await parseFragmentLine
      (Response True 200 (Some (streamOf [''{"message":{"content":"Hel"}}'' @ nl] Done)))
      (idleHome ''hi'') 2) = Some True
   \<and> map_option (isLoading \<circ> home) (sendMessage parseFragmentLine
      (Response True 200 (Some (streamOf [''{"message":{"content":"Hel"}}'' @ nl] Done)))
      (idleHome ''hi'')) = Some False\<close>
proof -
  let ?f = \<open>Response True 200 (Some (streamOf [''{"message":{"content":"Hel"}}'' @ nl] Done))\<close>
  have 1: "\<not> list_all isWhiteSpace (inputText (idleHome ''hi''))"
    by (simp add: idleHome_def isWhiteSpace_def)
  have 2: "\<not> isLoading (idleHome ''hi'')" by (simp add: idleHome_def)
  have 3: "\<forall>n r. ?f = Response True n (Some r) \<longrightarrow> \<not> isChunk (r 1)"
    by (simp add: streamOf_def)
  obtain s where 4: "sendMessage_await parseFragmentLine ?f (idleHome ''hi'') 2 = Some s"
    by (simp add: sendMessage_await_def idleHome_def trim_def isWhiteSpace_def Let_def
        streamOf_def numeral_2_eq_2)
  note inst = loading_flag_cleared [OF 1 2, of parseFragmentLine ?f 1]
  have Z: "sendMessage_await parseFragmentLine ?f (idleHome ''hi'') 0 = Some (startCycle (idleHome ''hi''))"
    using inst by blast
  have A: "isLoading s" using inst 4 by blast
  have "sendMessage parseFragmentLine ?f (idleHome ''hi'') \<noteq> None" using inst 3 by blast
  then obtain run where 5: "sendMessage parseFragmentLine ?f (idleHome ''hi'') = Some run" by blast
  have B: "\<not> isLoading (home run)" using inst 5 by blast
  from Z A B 4 5 show ?thesis by (simp add: startCycle_eq)
qed

subsection \<open>A fragment with content\<close>

text \<open>
  Claim C8, as stated, fails for the empty string. Line 147 tests the content for
  truthiness, and the empty string is falsy: the fragment is skipped, no message is
  appended and the cycle's message is not marked open.
\<close>

theorem empty_content_not_applied:
  \<open>processLine parseFragmentLine (startLoop [\<lparr>sender = User, text' = ''hi''\<rparr>])
      ''{"message":{"content":""}}'' =
    \<lparr>prev = [\<lparr>sender = User, text' = ''hi''\<rparr>], aiResponseText = [], firstChunk = True\<rparr>\<close>
  by (simp add: eval_defs)

text \<open>
  Claim C8, amended. A fragment whose content is present and is a string other than the
  empty one appends it to the running text and leaves the cycle's message open; when no
  message was open before, a new assistant message with the running text is appended. A
  fragment whose content is the empty string is skipped: the conversation, the running text
  and the open-message status stay as they were.
\<close>

theorem content_appended:
  assumes "P line = Inr (JObj ps)" and "map_of ps ''message'' = Some (JObj qs)"
    and "map_of qs ''content'' = Some (JStr d)"
  shows "(d \<noteq> [] \<longrightarrow>
           aiResponseText (processLine P st line) = aiResponseText st @ d
         \<and> \<not> firstChunk (processLine P st line)
         \<and> (firstChunk st \<longrightarrow>
              prev (processLine P st line) =
                prev st @ [\<lparr>sender = AI, text' = aiResponseText st @ d\<rparr>]))
    \<and> (d = [] \<longrightarrow> processLine P st line = st)"
proof -
  have "processLine P st line = applyDelta st d" if "d \<noteq> []"
    using lineDelta_string [of P line, OF assms that] by (simp add: processLine_cases)
  moreover have "processLine P st line = st" if "d = []"
  proof -
    have "lineError P line = None" and "lineDelta P line = None"
      using assms that by (simp_all add: lineError_def lineDelta_def messageContent_def)
    then show ?thesis by (simp add: processLine_cases)
  qed
  ultimately show ?thesis by (simp add: applyDelta_prev_first)
qed

theorem content_appended_witness:
  \<open>processLine parseFragmentLine (startLoop [\<lparr>sender = User, text' = ''hi''\<rparr>])
      ''{"message":{"content":"Hel"}}'' =
    \<lparr>prev = [\<lparr>sender = User, text' = ''hi''\<rparr>, \<lparr>sender = AI, text' = ''Hel''\<rparr>],
     aiResponseText = ''Hel'', firstChunk = False\<rparr>
   \<and> processLine parseFragmentLine
      \<lparr>prev = [\<lparr>sender = User, text' = ''hi''\<rparr>, \<lparr>sender = AI, text' = ''Hel''\<rparr>],
       aiResponseText = ''Hel'', firstChunk = False\<rparr>
      ''{"message":{"content":""}}'' =
    \<lparr>prev = [\<lparr>sender = User, text' = ''hi''\<rparr>, \<lparr>sender = AI, text' = ''Hel''\<rparr>],
     aiResponseText = ''Hel'', firstChunk = False\<rparr>\<close>
proof -
  have 1: \<open>parseFragmentLine ''{"message":{"content":"Hel"}}'' =
      Inr (JObj [(''message'', JObj [(''content'', JStr ''Hel'')])])\<close>
    by (simp add: eval_defs)
  have 2: "map_of [(''message'', JObj [(''content'', JStr ''Hel'')])] ''message'' =
      Some (JObj [(''content'', JStr ''Hel'')])" by simp
  have 3: "map_of [(''content'', JStr ''Hel'')] ''content'' = Some (JStr ''Hel'')" by simp
  have 4: "''Hel'' \<noteq> []" by simp
  have 5: "firstChunk (startLoop [\<lparr>sender = User, text' = ''hi''\<rparr>])" by (simp add: startLoop_def)
  have 6: \<open>parseFragmentLine ''{"message":{"content":""}}'' =
      Inr (JObj [(''message'', JObj [(''content'', JStr [])])])\<close>
    by (simp add: eval_defs)
  have 7: "map_of [(''message'', JObj [(''content'', JStr [])])] ''message'' =
      Some (JObj [(''content'', JStr [])])" by simp
  have 8: "map_of [(''content'', JStr [])] ''content'' = Some (JStr [])" by simp
  have A: \<open>processLine parseFragmentLine (startLoop [\<lparr>sender = User, text' = ''hi''\<rparr>])
      ''{"message":{"content":"Hel"}}'' =
    \<lparr>prev = [\<lparr>sender = User, text' = ''hi''\<rparr>, \<lparr>sender = AI, text' = ''Hel''\<rparr>],
     aiResponseText = ''Hel'', firstChunk = False\<rparr>\<close>
    using content_appended [of parseFragmentLine, OF 1 2 3,
      of "startLoop [\<lparr>sender = User, text' = ''hi''\<rparr>]"] 4 5
    by (cases \<open>processLine parseFragmentLine (startLoop [\<lparr>sender = User, text' = ''hi''\<rparr>])
      ''{"message":{"content":"Hel"}}''\<close>) (simp add: startLoop_def)
  have B: \<open>processLine parseFragmentLine
      \<lparr>prev = [\<lparr>sender = User, text' = ''hi''\<rparr>, \<lparr>sender = AI, text' = ''Hel''\<rparr>],
       aiResponseText = ''Hel'', firstChunk = False\<rparr>
      ''{"message":{"content":""}}'' =
    \<lparr>prev = [\<lparr>sender = User, text' = ''hi''\<rparr>, \<lparr>sender = AI, text' = ''Hel''\<rparr>],
     aiResponseText = ''Hel'', firstChunk = False\<rparr>\<close>
    using content_appended [of parseFragmentLine, OF 6 7 8] by simp
  from A B show ?thesis by simp
qed

subsection \<open>The done marker\<close>

text \<open>
  Claim C9. A fragment that carries the done marker and no content leaves the conversation,
  the running text and the open-message status as they were. This holds of every decoded
  object whose content field is absent, because the object has no \<^verbatim>\<open>message\<close>, or a
  message that is not an object, or a message without \<^verbatim>\<open>content\<close>, and also when the
  content field is there and falsy; it holds whatever the value of \<^verbatim>\<open>done\<close> is, the
  test of line 171 guarding an empty block.
\<close>

theorem done_only_unchanged:
  assumes "P line = Inr (JObj ps)" and "\<not> truthy (contentField (JObj ps))"
  shows "processLine P st line = st"
proof -
  have "lineError P line = None \<and> lineDelta P line = None"
  proof (cases "map_of ps ''message''")
    case None
    with assms(1) show ?thesis by (simp add: lineError_def lineDelta_def messageContent_def)
  next
    case (Some m)
    show ?thesis
    proof (cases m)
      case (JObj qs)
      with Some assms show ?thesis
        by (cases "map_of qs ''content''")
          (simp_all add: lineError_def lineDelta_def messageContent_def)
    qed (use Some assms(1) in \<open>simp_all add: lineError_def lineDelta_def messageContent_def\<close>)
  qed
  then show ?thesis by (simp add: processLine_cases)
qed

theorem done_only_unchanged_witness:
  \<open>processLine parseFragmentLine
     \<lparr>prev = [\<lparr>sender = User, text' = ''hi''\<rparr>, \<lparr>sender = AI, text' = ''Hello''\<rparr>],
      aiResponseText = ''Hello'', firstChunk = False\<rparr>
     ''{"done":true}'' =
   \<lparr>prev = [\<lparr>sender = User, text' = ''hi''\<rparr>, \<lparr>sender = AI, text' = ''Hello''\<rparr>],
    aiResponseText = ''Hello'', firstChunk = False\<rparr>
   \<and> processLine parseFragmentLine
     \<lparr>prev = [\<lparr>sender = User, text' = ''hi''\<rparr>, \<lparr>sender = AI, text' = ''Hello''\<rparr>],
      aiResponseText = ''Hello'', firstChunk = False\<rparr>
     ''{"message":{"role":"assistant"},"done":true}'' =
   \<lparr>prev = [\<lparr>sender = User, text' = ''hi''\<rparr>, \<lparr>sender = AI, text' = ''Hello''\<rparr>],
    aiResponseText = ''Hello'', firstChunk = False\<rparr>\<close>
proof -
  have 1: \<open>parseFragmentLine ''{"done":true}'' = Inr (JObj [(''done'', JBool True)])\<close>
    by (simp add: parseFragmentLine_def)
  have 2: "\<not> truthy (contentField (JObj [(''done'', JBool True)]))" by simp
  have 3: \<open>parseFragmentLine ''{"message":{"role":"assistant"},"done":true}'' =
      Inr (JObj [(''message'', JObj [(''role'', JStr ''assistant'')]), (''done'', JBool True)])\<close>
    by (simp add: parseFragmentLine_def)
  have 4: "\<not> truthy (contentField
      (JObj [(''message'', JObj [(''role'', JStr ''assistant'')]), (''done'', JBool True)]))"
    by simp
  show ?thesis
    using done_only_unchanged [of parseFragmentLine, OF 1 2]
      done_only_unchanged [of parseFragmentLine, OF 3 4]
    by simp
qed

subsection \<open>The guard of an invocation\<close>

text \<open>
  Claim C10. Invoked while the input is empty or consists of white space only, or while
  the awaiting-response flag is set, \<open>sendMessage\<close> returns at once and has done nothing:
  the component state, and with it the messages, the input and the flag, is as it was, no
  request has been issued and the invocation was never suspended.
\<close>

theorem sendMessage_guard_noop:
  assumes "list_all isWhiteSpace (inputText h) \<or> isLoading h"
  shows "sendMessage P fetched h = Some \<lparr>home = h, requests = []\<rparr> \<and>
         sendMessage_await P fetched h j = None"
  using assms by (auto simp: sendMessage_def sendMessage_await_def trim_Nil_iff)

theorem sendMessage_guard_noop_witness:
  "sendMessage parseFragmentLine (Rejected (JsError ''TypeError'' ''Failed to fetch''))
     (idleHome '' '') =
   Some \<lparr>home = idleHome '' '', requests = []\<rparr> \<and>
   sendMessage_await parseFragmentLine (Rejected (JsError ''TypeError'' ''Failed to fetch''))
     (idleHome '' '') 0 = None"
proof -
  have "list_all isWhiteSpace (inputText (idleHome '' '')) \<or> isLoading (idleHome '' '')"
    by (simp add: idleHome_def isWhiteSpace_def)
  then show ?thesis by (rule sendMessage_guard_noop)
qed

end
